theory Spec2Isabelle
  imports Complex_Main
begin

section \<open>JavaScript numbers\<close>

text \<open>
  A JavaScript \<open>number\<close> is a finite value, one of the two infinities, or NaN.  The
  finite values are modelled as reals: rounding, overflow of finite arithmetic and the
  sign of zero are not modelled (a zero divisor is taken as \<open>+0\<close>).  Everything the
  bounds code depends on is kept: NaN poisons \<open>Math.min\<close>/\<open>Math.max\<close> and every
  arithmetic operation, every comparison with NaN is false, and \<open>isFinite\<close> rejects NaN
  and both infinities.
\<close>

datatype number = Fin real | PInf | NInf | NaN

fun isFinite :: "number \<Rightarrow> bool" where
  "isFinite (Fin a) = True"
| "isFinite PInf = False"
| "isFinite NInf = False"
| "isFinite NaN = False"

text \<open>The comparison \<open>a < b\<close>; \<open>a > b\<close> is \<open>b < a\<close>.\<close>

fun jlt :: "number \<Rightarrow> number \<Rightarrow> bool" where
  "jlt NaN b = False"
| "jlt a NaN = False"
| "jlt (Fin a) (Fin b) = (a < b)"
| "jlt (Fin a) PInf = True"
| "jlt (Fin a) NInf = False"
| "jlt PInf b = False"
| "jlt NInf NInf = False"
| "jlt NInf b = True"

definition jgt :: "number \<Rightarrow> number \<Rightarrow> bool" where
  "jgt a b = jlt b a"

definition Math_min :: "number \<Rightarrow> number \<Rightarrow> number" where
  "Math_min a b = (if a = NaN \<or> b = NaN then NaN else if jlt b a then b else a)"

definition Math_max :: "number \<Rightarrow> number \<Rightarrow> number" where
  "Math_max a b = (if a = NaN \<or> b = NaN then NaN else if jlt a b then b else a)"

fun jneg :: "number \<Rightarrow> number" where
  "jneg (Fin a) = Fin (- a)"
| "jneg PInf = NInf"
| "jneg NInf = PInf"
| "jneg NaN = NaN"

fun jadd :: "number \<Rightarrow> number \<Rightarrow> number" where
  "jadd NaN b = NaN"
| "jadd a NaN = NaN"
| "jadd (Fin a) (Fin b) = Fin (a + b)"
| "jadd (Fin a) b = b"
| "jadd PInf NInf = NaN"
| "jadd NInf PInf = NaN"
| "jadd a b = a"

definition jsub :: "number \<Rightarrow> number \<Rightarrow> number" where
  "jsub a b = jadd a (jneg b)"

text \<open>The sign of a non-NaN number: \<open>-1\<close>, \<open>0\<close> or \<open>1\<close>.\<close>

fun jsgn :: "number \<Rightarrow> real" where
  "jsgn (Fin a) = sgn a"
| "jsgn PInf = 1"
| "jsgn NInf = - 1"
| "jsgn NaN = 0"

definition signed_inf :: "real \<Rightarrow> number" where
  "signed_inf s = (if s = 0 then NaN else if 0 < s then PInf else NInf)"

fun jmul :: "number \<Rightarrow> number \<Rightarrow> number" where
  "jmul NaN b = NaN"
| "jmul a NaN = NaN"
| "jmul (Fin a) (Fin b) = Fin (a * b)"
| "jmul a b = signed_inf (jsgn a * jsgn b)"

fun jdiv :: "number \<Rightarrow> number \<Rightarrow> number" where
  "jdiv NaN b = NaN"
| "jdiv a NaN = NaN"
| "jdiv (Fin a) (Fin b) = (if b = 0 then signed_inf (sgn a) else Fin (a / b))"
| "jdiv (Fin a) b = Fin 0"
| "jdiv a (Fin b) = signed_inf (jsgn a * (if b < 0 then - 1 else 1))"
| "jdiv a b = NaN"

section \<open>Posed skeletons\<close>

text \<open>
  A skeleton is read through its slots only.  A slot has no attachment, or a region
  attachment (whose \<open>computeWorldVertices\<close> writes four points), or a mesh attachment
  (any number of points), or an attachment of a kind the bounds code ignores.  The
  points are the values read back from the \<open>Float32Array\<close>.
\<close>

type_synonym point = "number \<times> number"

datatype attachment =
    RegionAttachment point point point point
  | MeshAttachment "point list"
  | OtherAttachment

type_synonym slot = "attachment option"

type_synonym skeleton = "slot list"

text \<open>The four running extremes \<open>(minX, minY, maxX, maxY)\<close>.\<close>

type_synonym extremes = "number \<times> number \<times> number \<times> number"

section \<open>getBounds and fitCamera (clamped camera-fit variant of SpineCanvas)\<close>

text \<open>The loop body of the region branch: no finiteness test.\<close>

fun region_vertex :: "extremes \<Rightarrow> point \<Rightarrow> extremes" where
  "region_vertex (minX, minY, maxX, maxY) (x, y) =
     (Math_min minX x, Math_min minY y, Math_max maxX x, Math_max maxY y)"

text \<open>The loop body of the mesh branch: guarded by \<open>isFinite(x) && isFinite(y)\<close>.\<close>

fun mesh_vertex :: "extremes \<Rightarrow> point \<Rightarrow> extremes" where
  "mesh_vertex e (x, y) =
     (if isFinite x \<and> isFinite y then region_vertex e (x, y) else e)"

fun scan_slot :: "extremes \<Rightarrow> slot \<Rightarrow> extremes" where
  "scan_slot e None = e"
| "scan_slot e (Some (RegionAttachment p0 p1 p2 p3)) = foldl region_vertex e [p0, p1, p2, p3]"
| "scan_slot e (Some (MeshAttachment vs)) = foldl mesh_vertex e vs"
| "scan_slot e (Some OtherAttachment) = e"

definition scan_slots :: "skeleton \<Rightarrow> extremes" where
  "scan_slots s = foldl scan_slot (PInf, PInf, NInf, NInf) s"

definition hasInvalidBounds :: "extremes \<Rightarrow> bool" where
  "hasInvalidBounds e = (case e of (minX, minY, maxX, maxY) \<Rightarrow>
     \<not> isFinite minX \<or> \<not> isFinite minY \<or> \<not> isFinite maxX \<or> \<not> isFinite maxY \<or>
     jgt minX maxX \<or> jgt minY maxY)"

definition default_box :: extremes where
  "default_box = (Fin (- 100), Fin (- 100), Fin 100, Fin 100)"

text \<open>The object \<open>{ w, h, cx, cy, minX, minY, maxX, maxY }\<close> that \<open>getBounds\<close> returns.\<close>

record bounds =
  b_w :: number
  b_h :: number
  b_cx :: number
  b_cy :: number
  b_minX :: number
  b_minY :: number
  b_maxX :: number
  b_maxY :: number

definition bounds_of :: "extremes \<Rightarrow> bounds" where
  "bounds_of e = (case e of (minX, minY, maxX, maxY) \<Rightarrow>
     (let w = Math_max (Fin 50) (jsub maxX minX);
          h = Math_max (Fin 50) (jsub maxY minY);
          cx = jadd minX (jdiv w (Fin 2));
          cy = jadd minY (jdiv h (Fin 2))
      in \<lparr>b_w = w, b_h = h, b_cx = cx, b_cy = cy,
          b_minX = minX, b_minY = minY, b_maxX = maxX, b_maxY = maxY\<rparr>))"

definition getBounds :: "skeleton \<Rightarrow> bounds" where
  "getBounds s =
     (let e = scan_slots s
      in bounds_of (if hasInvalidBounds e then default_box else e))"

text \<open>The camera fields that \<open>fitCamera\<close> assigns.\<close>

record camera =
  zoom :: number
  position_x :: number
  position_y :: number
  viewportWidth :: number
  viewportHeight :: number

definition fitCamera :: "skeleton \<Rightarrow> number \<Rightarrow> number \<Rightarrow> number \<Rightarrow> camera" where
  "fitCamera skeleton cssW cssH padding =
     (let b = getBounds skeleton;
          minSize = Fin 100;
          w = Math_max minSize (b_w b);
          h = Math_max minSize (b_h b);
          zoomX = jdiv (jmul w padding) cssW;
          zoomY = jdiv (jmul h padding) cssH;
          rawZoom = Math_max zoomX zoomY;
          zoom = Math_min (Fin 5) (Math_max (Fin (5 / 1000)) rawZoom)
      in \<lparr>zoom = zoom, position_x = b_cx b, position_y = b_cy b,
          viewportWidth = cssW, viewportHeight = cssH\<rparr>)"

text \<open>The default of the \<open>padding\<close> parameter.\<close>

definition default_padding :: number where
  "default_padding = Fin (3 / 2)"

section \<open>getBounds and fitCamera (SkeletonBounds variant of SpineCanvas)\<close>

text \<open>
  This variant reads the extremes from the runtime's \<open>SkeletonBounds\<close> helper, which is
  not part of the repository: its four fields after \<open>update\<close> are taken as the input.
\<close>

record bounds_sb =
  sb_w :: number
  sb_h :: number
  sb_cx :: number
  sb_cy :: number

definition getBounds_sb :: "extremes \<Rightarrow> bounds_sb" where
  "getBounds_sb e = (case e of (minX, minY, maxX, maxY) \<Rightarrow>
     (let w = Math_max (Fin (1 / 1000000)) (jsub maxX minX);
          h = Math_max (Fin (1 / 1000000)) (jsub maxY minY);
          cx = jadd minX (jdiv w (Fin 2));
          cy = jadd minY (jdiv h (Fin 2))
      in \<lparr>sb_w = w, sb_h = h, sb_cx = cx, sb_cy = cy\<rparr>))"

definition fitCamera_sb :: "extremes \<Rightarrow> number \<Rightarrow> number \<Rightarrow> number \<Rightarrow> camera" where
  "fitCamera_sb e cssW cssH padding =
     (let b = getBounds_sb e;
          zoomX = jdiv (jmul (sb_w b) padding) cssW;
          zoomY = jdiv (jmul (sb_h b) padding) cssH;
          zoom = Math_max zoomX zoomY
      in \<lparr>zoom = zoom, position_x = sb_cx b, position_y = sb_cy b,
          viewportWidth = cssW, viewportHeight = cssH\<rparr>)"

section \<open>The bounds operation in the words of the specification\<close>

definition finite_point :: "point \<Rightarrow> bool" where
  "finite_point p = (isFinite (fst p) \<and> isFinite (snd p))"

fun slot_points :: "slot \<Rightarrow> point list" where
  "slot_points None = []"
| "slot_points (Some (RegionAttachment p0 p1 p2 p3)) = [p0, p1, p2, p3]"
| "slot_points (Some (MeshAttachment vs)) = vs"
| "slot_points (Some OtherAttachment) = []"

definition all_points :: "skeleton \<Rightarrow> point list" where
  "all_points s = concat (map slot_points s)"

fun real_of :: "number \<Rightarrow> real" where
  "real_of (Fin a) = a"
| "real_of PInf = 0"
| "real_of NInf = 0"
| "real_of NaN = 0"

text \<open>
  The union bounding box over the finite points of all vertex sets, and the default box
  when there is none: what the specification asks of \<open>computeBounds\<close>.
\<close>

definition spec_computeBounds :: "point list \<Rightarrow> extremes" where
  "spec_computeBounds ps =
     (let fs = filter finite_point ps;
          xs = map (real_of \<circ> fst) fs;
          ys = map (real_of \<circ> snd) fs
      in if fs = [] then default_box
         else (Fin (Min (set xs)), Fin (Min (set ys)), Fin (Max (set xs)), Fin (Max (set ys))))"

definition box_of :: "bounds \<Rightarrow> extremes" where
  "box_of b = (b_minX b, b_minY b, b_maxX b, b_maxY b)"

text \<open>\<open>clamp(x, lo, hi)\<close> and the zoom formula as the specification writes it.\<close>

definition clamp :: "real \<Rightarrow> real \<Rightarrow> real \<Rightarrow> real" where
  "clamp x lo hi = min hi (max lo x)"

definition spec_zoom :: "real \<Rightarrow> real \<Rightarrow> real \<Rightarrow> real \<Rightarrow> real \<Rightarrow> real \<Rightarrow> real \<Rightarrow> real" where
  "spec_zoom boundsWidth boundsHeight paddingRatio vw vh zmin zmax =
     clamp (max (boundsWidth * paddingRatio / vw) (boundsHeight * paddingRatio / vh)) zmin zmax"

section \<open>computeAABB and layoutGrid (multi-skeleton variant of SpineCanvas)\<close>

definition PADDING_RATIO :: number where
  "PADDING_RATIO = Fin (9 / 10)"

text \<open>The four \<open>if\<close> statements of the loop bodies: comparisons only, no finiteness test.\<close>

fun aabb_vertex :: "extremes \<Rightarrow> point \<Rightarrow> extremes" where
  "aabb_vertex (minX, minY, maxX, maxY) (x, y) =
     ((if jlt x minX then x else minX), (if jlt y minY then y else minY),
      (if jgt x maxX then x else maxX), (if jgt y maxY then y else maxY))"

fun aabb_slot :: "extremes \<Rightarrow> slot \<Rightarrow> extremes" where
  "aabb_slot e None = e"
| "aabb_slot e (Some (RegionAttachment p0 p1 p2 p3)) = foldl aabb_vertex e [p0, p1, p2, p3]"
| "aabb_slot e (Some (MeshAttachment vs)) = foldl aabb_vertex e vs"
| "aabb_slot e (Some OtherAttachment) = e"

record aabb =
  a_minX :: number
  a_minY :: number
  a_maxX :: number
  a_maxY :: number
  a_width :: number
  a_height :: number

definition computeAABB :: "skeleton \<Rightarrow> aabb" where
  "computeAABB skeleton =
     (case foldl aabb_slot (PInf, PInf, NInf, NInf) skeleton of (minX, minY, maxX, maxY) \<Rightarrow>
        (case (if minX = PInf then (Fin 0, Fin 0, Fin 1, Fin 1) else (minX, minY, maxX, maxY))
         of (minX, minY, maxX, maxY) \<Rightarrow>
           \<lparr>a_minX = minX, a_minY = minY, a_maxX = maxX, a_maxY = maxY,
            a_width = jsub maxX minX, a_height = jsub maxY minY\<rparr>))"

text \<open>
  A runtime: the slots of its skeleton in the current pose, and the four skeleton fields
  that \<open>layoutGrid\<close> assigns.
\<close>

record runtime =
  rt_slots :: skeleton
  rt_scaleX :: number
  rt_scaleY :: number
  rt_x :: number
  rt_y :: number

definition grid_cols :: "nat \<Rightarrow> nat" where
  "grid_cols n = nat \<lceil>sqrt (real n)\<rceil>"

definition grid_rows :: "nat \<Rightarrow> nat" where
  "grid_rows n = nat \<lceil>real n / real (grid_cols n)\<rceil>"

text \<open>The body of the loop of \<open>layoutGrid\<close> at index \<open>i\<close>.\<close>

definition layout_body :: "nat \<Rightarrow> number \<Rightarrow> number \<Rightarrow> nat \<Rightarrow> runtime \<Rightarrow> runtime" where
  "layout_body cols cellW cellH i rt =
     (let cx = i mod cols;
          cy = i div cols;
          targetCx = jadd (jmul (Fin (real cx)) cellW) (jdiv cellW (Fin 2));
          targetCy = jadd (jmul (Fin (real cy)) cellH) (jdiv cellH (Fin 2));
          aabb = computeAABB (rt_slots rt);
          bw = Math_max (a_width aabb) (Fin 1);
          bh = Math_max (a_height aabb) (Fin 1);
          scale = jmul (Math_min (jdiv cellW bw) (jdiv cellH bh)) PADDING_RATIO;
          centerX = jadd (a_minX aabb) (jdiv bw (Fin 2));
          centerY = jadd (a_minY aabb) (jdiv bh (Fin 2))
      in rt\<lparr>rt_scaleX := scale, rt_scaleY := scale,
            rt_x := jsub targetCx (jmul centerX scale),
            rt_y := jsub targetCy (jmul centerY scale)\<rparr>)"

definition layoutGrid :: "runtime list \<Rightarrow> number \<Rightarrow> number \<Rightarrow> runtime list" where
  "layoutGrid runtimes W H =
     (if length runtimes = 0 then runtimes
      else
        (let cols = grid_cols (length runtimes);
             rows = grid_rows (length runtimes);
             cellW = jdiv W (Fin (real cols));
             cellH = jdiv H (Fin (real rows))
         in foldl (\<lambda>rts i. rts[i := layout_body cols cellW cellH i (rts ! i)])
              runtimes [0..<length runtimes]))"

text \<open>The grid placement of a shape, as the specification names it.\<close>

record placement =
  scale :: number
  translateX :: number
  translateY :: number

definition placement_of :: "runtime \<Rightarrow> placement" where
  "placement_of rt = \<lparr>scale = rt_scaleX rt, translateX = rt_x rt, translateY = rt_y rt\<rparr>"

section \<open>The visibility watchdog of the frame loop\<close>

text \<open>
  \<open>invisible\<close> as the frame loop computes it from the bounds of the frame; the threshold
  is \<open>1e-6\<close> in the clamped variant and \<open>1e-4\<close> in the SkeletonBounds variant.
\<close>

definition invisible :: "number \<Rightarrow> number \<Rightarrow> number \<Rightarrow> bool" where
  "invisible thr w h = (\<not> isFinite w \<or> \<not> isFinite h \<or> jlt w thr \<or> jlt h thr)"

definition watchdogLimitMs :: real where
  "watchdogLimitMs = 600"

text \<open>
  One frame of the watchdog: from \<open>watchdogStart\<close>, the frame's timestamp and its
  \<open>invisible\<close> flag to the new \<open>watchdogStart\<close> and whether \<open>onError('no-visual')\<close> was
  called.  \<open>watchdogStart = 0\<close> means that the timer is not running.
\<close>

definition watchdog_step :: "real \<Rightarrow> real \<times> bool \<Rightarrow> real \<times> bool" where
  "watchdog_step watchdogStart f = (case f of (now, invis) \<Rightarrow>
     (if invis then
        (if watchdogStart = 0 then (now, False)
         else if now - watchdogStart > watchdogLimitMs then (0, True)
         else (watchdogStart, False))
      else (0, False)))"

text \<open>
  The frames of one mount of the canvas, in order: \<open>watchdogStart\<close> before frame \<open>n\<close>
  (it is \<open>0\<close> when the effect starts), and whether frame \<open>n\<close> calls \<open>onError\<close>.
  A frame is its timestamp and its \<open>invisible\<close> flag; the frames at which the loop
  returns early, before a skeleton is loaded, do not touch the watchdog and are left out.
\<close>

primrec watchdogStart_at :: "(nat \<Rightarrow> real \<times> bool) \<Rightarrow> nat \<Rightarrow> real" where
  "watchdogStart_at fr 0 = 0"
| "watchdogStart_at fr (Suc n) = fst (watchdog_step (watchdogStart_at fr n) (fr n))"

definition fires :: "(nat \<Rightarrow> real \<times> bool) \<Rightarrow> nat \<Rightarrow> bool" where
  "fires fr n = snd (watchdog_step (watchdogStart_at fr n) (fr n))"

definition onError_calls :: "(nat \<Rightarrow> real \<times> bool) \<Rightarrow> nat \<Rightarrow> nat" where
  "onError_calls fr n = length (filter (fires fr) [0..<n])"

section \<open>SpineRenderer: the fallback flag\<close>

datatype RenderMode = Player | WebGL

text \<open>The props that matter here, and the \<open>forcePlayer\<close> state of one mounted renderer.\<close>

record renderer =
  renderMode :: RenderMode
  enableAutoFallback :: bool
  skeletonPath :: string
  atlasPath :: string
  forcePlayer :: bool

text \<open>Mounting runs \<open>useState(false)\<close>.\<close>

definition mount :: "RenderMode \<Rightarrow> bool \<Rightarrow> string \<Rightarrow> string \<Rightarrow> renderer" where
  "mount m fb sp ap =
     \<lparr>renderMode = m, enableAutoFallback = fb, skeletonPath = sp, atlasPath = ap,
      forcePlayer = False\<rparr>"

definition effectiveMode :: "renderer \<Rightarrow> RenderMode" where
  "effectiveMode r =
     (if renderMode r = WebGL \<and> enableAutoFallback r \<and> forcePlayer r then Player
      else renderMode r)"

datatype effect = ConsoleError | ConsoleLog | SetForcePlayer bool

datatype jsval = Undefined | Boolean bool

text \<open>
  One call of \<open>handleWebglError\<close> on the renderer that its closure sees: the renderer
  once the requested state update is applied, the value the call returns (the function
  has no \<open>return\<close> statement), and what it did.
\<close>

definition handleWebglError :: "renderer \<Rightarrow> renderer \<times> jsval \<times> effect list" where
  "handleWebglError r =
     (if enableAutoFallback r \<and> \<not> forcePlayer r
      then (r\<lparr>forcePlayer := True\<rparr>, Undefined, [ConsoleError, ConsoleLog, SetForcePlayer True])
      else (r, Undefined, [ConsoleError]))"

datatype RenderFallbackState = Primary | Fallback

definition state_of :: "renderer \<Rightarrow> RenderFallbackState" where
  "state_of r = (if forcePlayer r then Fallback else Primary)"

definition switches :: "effect list \<Rightarrow> nat" where
  "switches es = length (filter (\<lambda>e. e = SetForcePlayer True) es)"

text \<open>
  One mounted renderer between two renders.  \<open>held\<close> is the renderer with the state that
  React holds, after every \<open>setForcePlayer\<close> so far; \<open>shown\<close> is the renderer as its last
  render saw it: the tree on screen and the \<open>handleWebglError\<close> closure given to the
  canvas were built from it.
\<close>

record mounted =
  held :: renderer
  shown :: renderer

definition mount_renderer :: "RenderMode \<Rightarrow> bool \<Rightarrow> string \<Rightarrow> string \<Rightarrow> mounted" where
  "mount_renderer m fb sp ap = \<lparr>held = mount m fb sp ap, shown = mount m fb sp ap\<rparr>"

definition rerender :: "mounted \<Rightarrow> mounted" where
  "rerender m = m\<lparr>shown := held m\<rparr>"

text \<open>
  The tree holds a \<open>SpineCanvas\<close>, with \<open>onError = handleWebglError\<close>, only when the
  effective mode of the last render is \<open>webgl\<close>; otherwise it holds the \<open>SpinePlayer\<close>,
  which has no \<open>onError\<close> prop, and the cleanup of the canvas has cancelled its frame loop.
\<close>

definition canvas_mounted :: "mounted \<Rightarrow> bool" where
  "canvas_mounted m = (effectiveMode (shown m) = WebGL)"

fun apply_effect :: "renderer \<Rightarrow> effect \<Rightarrow> renderer" where
  "apply_effect r (SetForcePlayer b) = r\<lparr>forcePlayer := b\<rparr>"
| "apply_effect r ConsoleError = r"
| "apply_effect r ConsoleLog = r"

text \<open>
  An \<open>onError\<close> call from the canvas.  Without a mounted canvas there is none.  Otherwise
  the closure of the last render runs, on what that render saw, and its \<open>setForcePlayer\<close>
  calls reach the held state; the tree changes at the next render only.
\<close>

definition onError :: "mounted \<Rightarrow> (mounted \<times> effect list) option" where
  "onError m =
     (if canvas_mounted m
      then (case handleWebglError (shown m) of
              (r', v, es) \<Rightarrow> Some (m\<lparr>held := foldl apply_effect (held m) es\<rparr>, es))
      else None)"

text \<open>What can happen within one mount: an error signal from the canvas, or a render.\<close>

datatype event = WebglError | Rerender

fun step :: "mounted \<Rightarrow> event \<Rightarrow> (mounted \<times> effect list) option" where
  "step m WebglError = onError m"
| "step m Rerender = Some (rerender m, [])"

fun run :: "mounted \<Rightarrow> event list \<Rightarrow> (mounted \<times> effect list) option" where
  "run m [] = Some (m, [])"
| "run m (e # es) =
     (case step m e of
        None \<Rightarrow> None
      | Some (m', out) \<Rightarrow>
          (case run m' es of None \<Rightarrow> None | Some (m'', out') \<Rightarrow> Some (m'', out @ out')))"



text \<open>
  The canvas and its renderer together, frame by frame: the mounted renderer, the
  \<open>watchdogStart\<close> of the canvas and everything the handler did, after the first \<open>n\<close>
  frames.  While the canvas is mounted each frame runs the watchdog; an \<open>onError\<close> call
  reaches the handler and the renderer is rendered again before the next frame.  Once the
  canvas is unmounted its loop is cancelled and no frame does anything.
\<close>

primrec system_at :: "(nat \<Rightarrow> real \<times> bool) \<Rightarrow> mounted \<Rightarrow> nat \<Rightarrow> mounted \<times> real \<times> effect list" where
  "system_at fr m0 0 = (m0, 0, [])"
| "system_at fr m0 (Suc n) =
     (case system_at fr m0 n of (m, ws, es) \<Rightarrow>
        if canvas_mounted m then
          (case watchdog_step ws (fr n) of (ws', fired) \<Rightarrow>
             if fired then
               (case onError m of
                  Some (m', es') \<Rightarrow> (rerender m', ws', es @ es')
                | None \<Rightarrow> (m, ws', es))
             else (m, ws', es))
        else (m, ws, es))"

section \<open>Auxiliary notions and example inputs\<close>

definition aabb_box :: "aabb \<Rightarrow> extremes" where
  "aabb_box a = (a_minX a, a_minY a, a_maxX a, a_maxY a)"

definition unit_aabb :: aabb where
  "unit_aabb = \<lparr>a_minX = Fin 0, a_minY = Fin 0, a_maxX = Fin 1, a_maxY = Fin 1,
      a_width = Fin 1, a_height = Fin 1\<rparr>"

text \<open>The scale formula as the specification writes it.\<close>

definition spec_scale :: "real \<Rightarrow> real \<Rightarrow> real \<Rightarrow> real \<Rightarrow> real \<Rightarrow> real" where
  "spec_scale cellWidth cellHeight shapeWidth shapeHeight paddingRatio =
     min (cellWidth / shapeWidth) (cellHeight / shapeHeight) * paddingRatio"

text \<open>
  Extremes that a non-finite coordinate has reached: from then on they stay non-finite
  whatever is scanned next.
\<close>

definition poisoned :: "extremes \<Rightarrow> bool" where
  "poisoned e = (case e of (minX, minY, maxX, maxY) \<Rightarrow>
     minX = NInf \<or> minX = NaN \<or> minY = NInf \<or> minY = NaN \<or>
     maxX = PInf \<or> maxX = NaN \<or> maxY = PInf \<or> maxY = NaN)"


text \<open>The renderer after the switch to the player has been requested and rendered.\<close>

definition switched :: "mounted \<Rightarrow> mounted" where
  "switched m =
     \<lparr>held = (held m)\<lparr>forcePlayer := True\<rparr>, shown = (held m)\<lparr>forcePlayer := True\<rparr>\<rparr>"

text \<open>A healthy mesh next to a region attachment with one NaN vertex.\<close>

definition ex_region_nan :: skeleton where
  "ex_region_nan =
     [Some (MeshAttachment [(Fin 0, Fin 0), (Fin 10, Fin 10)]),
      Some (RegionAttachment (NaN, NaN) (Fin 1, Fin 1) (Fin 2, Fin 2) (Fin 3, Fin 3))]"

text \<open>A skeleton whose only attachment is a mesh with the two corners given.\<close>

definition mesh_skeleton :: "real \<Rightarrow> real \<Rightarrow> real \<Rightarrow> real \<Rightarrow> skeleton" where
  "mesh_skeleton x0 y0 x1 y1 = [Some (MeshAttachment [(Fin x0, Fin y0), (Fin x1, Fin y1)])]"

definition shape :: "real \<Rightarrow> real \<Rightarrow> real \<Rightarrow> real \<Rightarrow> runtime" where
  "shape x0 y0 x1 y1 =
     \<lparr>rt_slots = mesh_skeleton x0 y0 x1 y1,
      rt_scaleX = Fin 1, rt_scaleY = Fin 1, rt_x = Fin 0, rt_y = Fin 0\<rparr>"

text \<open>
  Frames every 100 ms.  In the first sequence every frame is invisible: the bounds are
  those of the SkeletonBounds variant for a skeleton of zero extent, tested against that
  variant's threshold.  In the second, visible and invisible frames alternate.
\<close>

definition zero_box :: extremes where
  "zero_box = (Fin 0, Fin 0, Fin 0, Fin 0)"

definition frames_sustained :: "nat \<Rightarrow> real \<times> bool" where
  "frames_sustained k =
     (100 * real (Suc k),
      invisible (Fin (1 / 10000)) (sb_w (getBounds_sb zero_box)) (sb_h (getBounds_sb zero_box)))"

definition frames_alternating :: "nat \<Rightarrow> real \<times> bool" where
  "frames_alternating k = (100 * real (Suc k), even k)"

definition renderer0 :: renderer where
  "renderer0 = mount WebGL True ''a.json'' ''a.atlas''"

definition mounted0 :: mounted where
  "mounted0 = mount_renderer WebGL True ''a.json'' ''a.atlas''"

text \<open>
  The frames of the clamped variant, 100 ms apart, for a skeleton that keeps its pose:
  the flag is the one that loop computes from \<open>getBounds\<close>.  A skeleton whose only
  vertex is NaN has nothing to show.
\<close>

definition clamped_frames :: "skeleton \<Rightarrow> nat \<Rightarrow> real \<times> bool" where
  "clamped_frames s k =
     (100 * real (Suc k),
      invisible (Fin (1 / 1000000)) (b_w (getBounds s)) (b_h (getBounds s)))"

definition nan_skeleton :: skeleton where
  "nan_skeleton = [Some (MeshAttachment [(NaN, NaN)])]"

section \<open>Facts about the number operations and the bounds scan\<close>

lemma bounds_of_fin:
  "a \<le> c \<Longrightarrow> b \<le> d \<Longrightarrow>
   bounds_of (Fin a, Fin b, Fin c, Fin d) =
     \<lparr>b_w = Fin (max 50 (c - a)), b_h = Fin (max 50 (d - b)),
      b_cx = Fin (a + max 50 (c - a) / 2), b_cy = Fin (b + max 50 (d - b) / 2),
      b_minX = Fin a, b_minY = Fin b, b_maxX = Fin c, b_maxY = Fin d\<rparr>"
  by (simp add: bounds_of_def Math_max_def jsub_def Let_def max_def)

lemma getBounds_shape:
  "\<exists>a b c d. a \<le> c \<and> b \<le> d \<and> getBounds s = bounds_of (Fin a, Fin b, Fin c, Fin d)"
proof (cases "hasInvalidBounds (scan_slots s)")
  case True
  then show ?thesis
    unfolding getBounds_def default_box_def Let_def
    by (intro exI [of _ "- 100"] exI [of _ 100]) simp
next
  case False
  obtain p q r t where e: "scan_slots s = (p, q, r, t)"
    by (cases "scan_slots s") auto
  from False e obtain a b c d where f: "p = Fin a" "q = Fin b" "r = Fin c" "t = Fin d"
    by (cases p; cases q; cases r; cases t) (auto simp: hasInvalidBounds_def)
  with False e have "a \<le> c" "b \<le> d"
    by (auto simp: hasInvalidBounds_def jgt_def)
  with False e f show ?thesis
    unfolding getBounds_def Let_def by auto
qed

lemma Math_max_Fin: "Math_max (Fin x) (Fin y) = Fin (max x y)"
  by (simp add: Math_max_def max_def)

lemma Math_min_Fin: "Math_min (Fin x) (Fin y) = Fin (min x y)"
  by (simp add: Math_min_def min_def)

lemma zoom_fin:
  assumes "0 < vw" "0 < vh" "a \<le> c" "b \<le> d" "getBounds s = bounds_of (Fin a, Fin b, Fin c, Fin d)"
  shows "zoom (fitCamera s (Fin vw) (Fin vh) (Fin p)) =
     Fin (clamp (max (max 100 (c - a) * p / vw) (max 100 (d - b) * p / vh)) (5 / 1000) 5)"
proof -
  have m: "max 100 (max 50 x) = max 100 x" for x :: real by simp
  have w: "Math_max (Fin 100) (b_w (getBounds s)) = Fin (max 100 (c - a))"
    by (simp only: assms(5) bounds_of_fin [OF assms(3,4)] bounds.simps Math_max_Fin m)
  have h: "Math_max (Fin 100) (b_h (getBounds s)) = Fin (max 100 (d - b))"
    by (simp only: assms(5) bounds_of_fin [OF assms(3,4)] bounds.simps Math_max_Fin m)
  have zx: "jdiv (jmul (Fin (max 100 (c - a))) (Fin p)) (Fin vw) = Fin (max 100 (c - a) * p / vw)"
    using assms(1) by simp
  have zy: "jdiv (jmul (Fin (max 100 (d - b))) (Fin p)) (Fin vh) = Fin (max 100 (d - b) * p / vh)"
    using assms(2) by simp
  show ?thesis
    unfolding fitCamera_def Let_def w h zx zy Math_max_Fin Math_min_Fin clamp_def
    by simp
qed

lemma Math_min_poison: "m = NInf \<or> m = NaN \<Longrightarrow> Math_min m x = NInf \<or> Math_min m x = NaN"
  by (cases x) (auto simp: Math_min_def)

lemma Math_max_poison: "m = PInf \<or> m = NaN \<Longrightarrow> Math_max m x = PInf \<or> Math_max m x = NaN"
  by (cases x) (auto simp: Math_max_def)

lemma Math_min_nonfinite: "\<not> isFinite x \<Longrightarrow> Math_min m x = NInf \<or> Math_min m x = NaN \<or> Math_max m' x = PInf \<or> Math_max m' x = NaN"
  by (cases x; cases m; cases m') (auto simp: Math_min_def Math_max_def)

lemma region_vertex_poisoned: "poisoned e \<Longrightarrow> poisoned (region_vertex e p)"
proof -
  obtain a b c d where e: "e = (a, b, c, d)" by (cases e) auto
  obtain x y where p: "p = (x, y)" by (cases p) auto
  assume "poisoned e"
  then consider "a = NInf \<or> a = NaN" | "b = NInf \<or> b = NaN" | "c = PInf \<or> c = NaN" | "d = PInf \<or> d = NaN"
    unfolding poisoned_def e by auto
  then show ?thesis
  proof cases
    case 1 from Math_min_poison [OF this, of x] show ?thesis unfolding poisoned_def e p by auto
  next
    case 2 from Math_min_poison [OF this, of y] show ?thesis unfolding poisoned_def e p by auto
  next
    case 3 from Math_max_poison [OF this, of x] show ?thesis unfolding poisoned_def e p by auto
  next
    case 4 from Math_max_poison [OF this, of y] show ?thesis unfolding poisoned_def e p by auto
  qed
qed

lemma region_vertex_nonfinite: "\<not> finite_point p \<Longrightarrow> poisoned (region_vertex e p)"
proof -
  obtain a b c d where e: "e = (a, b, c, d)" by (cases e) auto
  obtain x y where p: "p = (x, y)" by (cases p) auto
  assume "\<not> finite_point p"
  then consider "\<not> isFinite x" | "\<not> isFinite y" unfolding finite_point_def p by auto
  then show ?thesis
  proof cases
    case 1 from Math_min_nonfinite [OF this, of a c] show ?thesis unfolding poisoned_def e p by auto
  next
    case 2 from Math_min_nonfinite [OF this, of b d] show ?thesis unfolding poisoned_def e p by auto
  qed
qed

lemma mesh_vertex_poisoned: "poisoned e \<Longrightarrow> poisoned (mesh_vertex e p)"
  by (cases p) (simp add: region_vertex_poisoned)

lemma mesh_vertex_nonfinite: "\<not> finite_point p \<Longrightarrow> mesh_vertex e p = e"
  by (cases p) (auto simp: finite_point_def)

lemma foldl_region_poisoned: "poisoned e \<Longrightarrow> poisoned (foldl region_vertex e ps)"
  by (induction ps arbitrary: e) (simp_all add: region_vertex_poisoned)

lemma foldl_mesh_poisoned: "poisoned e \<Longrightarrow> poisoned (foldl mesh_vertex e ps)"
  by (induction ps arbitrary: e) (simp_all add: mesh_vertex_poisoned)

lemma foldl_mesh_nonfinite: "\<forall>p\<in>set ps. \<not> finite_point p \<Longrightarrow> foldl mesh_vertex e ps = e"
  by (induction ps arbitrary: e) (simp_all add: mesh_vertex_nonfinite)

lemma scan_slot_poisoned: "poisoned e \<Longrightarrow> poisoned (scan_slot e sl)"
proof (cases sl)
  case None then show "poisoned e \<Longrightarrow> ?thesis" by simp
next
  case (Some att)
  assume pe: "poisoned e"
  show ?thesis
  proof (cases att)
    case (RegionAttachment p0 p1 p2 p3)
    with Some foldl_region_poisoned [OF pe, of "[p0, p1, p2, p3]"] show ?thesis by simp
  next
    case (MeshAttachment vs)
    with Some foldl_mesh_poisoned [OF pe, of vs] show ?thesis by simp
  next
    case OtherAttachment with Some pe show ?thesis by simp
  qed
qed

lemma scan_slot_nonfinite:
  assumes "\<forall>p\<in>set (slot_points sl). \<not> finite_point p"
  shows "scan_slot e sl = e \<or> poisoned (scan_slot e sl)"
proof (cases sl)
  case None then show ?thesis by simp
next
  case (Some att)
  show ?thesis
  proof (cases att)
    case (RegionAttachment p0 p1 p2 p3)
    with Some assms have "\<not> finite_point p0" by simp
    then have "poisoned (region_vertex e p0)" by (rule region_vertex_nonfinite)
    then have "poisoned (foldl region_vertex (region_vertex e p0) [p1, p2, p3])"
      by (rule foldl_region_poisoned)
    with Some RegionAttachment show ?thesis by simp
  next
    case (MeshAttachment vs)
    with Some assms foldl_mesh_nonfinite [of vs e] show ?thesis by simp
  next
    case OtherAttachment with Some show ?thesis by simp
  qed
qed

lemma foldl_scan_poisoned: "poisoned e \<Longrightarrow> poisoned (foldl scan_slot e s)"
  by (induction s arbitrary: e) (simp_all add: scan_slot_poisoned)

lemma foldl_scan_nonfinite:
  "\<forall>p\<in>set (all_points s). \<not> finite_point p \<Longrightarrow>
   foldl scan_slot e s = e \<or> poisoned (foldl scan_slot e s)"
proof (induction s arbitrary: e)
  case Nil
  then show ?case by simp
next
  case (Cons sl s)
  from Cons.prems have a: "\<forall>p\<in>set (slot_points sl). \<not> finite_point p"
    and b: "\<forall>p\<in>set (all_points s). \<not> finite_point p"
    by (simp_all add: all_points_def)
  from scan_slot_nonfinite [OF a, of e] show ?case
  proof
    assume "scan_slot e sl = e"
    with Cons.IH [OF b, of e] show ?thesis by simp
  next
    assume "poisoned (scan_slot e sl)"
    then have "poisoned (foldl scan_slot (scan_slot e sl) s)" by (rule foldl_scan_poisoned)
    then show ?thesis by simp
  qed
qed

lemma poisoned_invalid: "poisoned e \<Longrightarrow> hasInvalidBounds e"
  by (cases e) (auto simp: poisoned_def hasInvalidBounds_def)

lemma getBounds_no_finite:
  assumes "\<forall>p\<in>set (all_points s). \<not> finite_point p"
  shows "box_of (getBounds s) = default_box"
proof -
  have "hasInvalidBounds (scan_slots s)"
    using foldl_scan_nonfinite [OF assms, of "(PInf, PInf, NInf, NInf)"]
    unfolding scan_slots_def
  proof
    assume "foldl scan_slot (PInf, PInf, NInf, NInf) s = (PInf, PInf, NInf, NInf)"
    then show "hasInvalidBounds (foldl scan_slot (PInf, PInf, NInf, NInf) s)"
      by (simp add: hasInvalidBounds_def)
  next
    assume "poisoned (foldl scan_slot (PInf, PInf, NInf, NInf) s)"
    then show "hasInvalidBounds (foldl scan_slot (PInf, PInf, NInf, NInf) s)"
      by (rule poisoned_invalid)
  qed
  then show ?thesis
    by (simp add: getBounds_def bounds_of_def box_of_def default_box_def Let_def)
qed

section \<open>Facts about computeAABB and the layout loop\<close>

lemma aabb_vertex_keeps_minX:
  "fst p = NaN \<or> fst p = PInf \<Longrightarrow> fst (aabb_vertex (PInf, b, c, d) p) = PInf"
  by (cases p) auto

lemma foldl_aabb_vertex_minX:
  "\<forall>p\<in>set ps. fst p = NaN \<or> fst p = PInf \<Longrightarrow> fst e = PInf \<Longrightarrow>
   fst (foldl aabb_vertex e ps) = PInf"
proof (induction ps arbitrary: e)
  case Nil
  then show ?case by simp
next
  case (Cons p ps)
  obtain b c d where e: "e = (PInf, b, c, d)" using Cons.prems(2) by (cases e) auto
  from Cons.prems(1) have "fst p = NaN \<or> fst p = PInf" by simp
  then have "fst (aabb_vertex e p) = PInf" unfolding e by (rule aabb_vertex_keeps_minX)
  with Cons show ?case by simp
qed

lemma aabb_slot_minX:
  assumes "\<forall>p\<in>set (slot_points sl). fst p = NaN \<or> fst p = PInf" "fst e = PInf"
  shows "fst (aabb_slot e sl) = PInf"
proof (cases sl)
  case None with assms show ?thesis by simp
next
  case (Some att)
  show ?thesis
  proof (cases att)
    case (RegionAttachment p0 p1 p2 p3)
    with Some assms foldl_aabb_vertex_minX [of "[p0, p1, p2, p3]" e] show ?thesis by simp
  next
    case (MeshAttachment vs)
    with Some assms foldl_aabb_vertex_minX [of vs e] show ?thesis by simp
  next
    case OtherAttachment with Some assms show ?thesis by simp
  qed
qed

lemma foldl_aabb_slot_minX:
  "\<forall>p\<in>set (all_points s). fst p = NaN \<or> fst p = PInf \<Longrightarrow> fst e = PInf \<Longrightarrow>
   fst (foldl aabb_slot e s) = PInf"
proof (induction s arbitrary: e)
  case Nil
  then show ?case by simp
next
  case (Cons sl s)
  from Cons.prems(1) have a: "\<forall>p\<in>set (slot_points sl). fst p = NaN \<or> fst p = PInf"
    and b: "\<forall>p\<in>set (all_points s). fst p = NaN \<or> fst p = PInf"
    by (simp_all add: all_points_def)
  from aabb_slot_minX [OF a Cons.prems(2)] Cons.IH [OF b] show ?case by simp
qed

lemma computeAABB_fallback:
  assumes "\<forall>p\<in>set (all_points s). fst p = NaN \<or> fst p = PInf"
  shows "computeAABB s = unit_aabb"
proof -
  have "fst (foldl aabb_slot (PInf, PInf, NInf, NInf) s) = PInf"
    using assms by (rule foldl_aabb_slot_minX) simp
  then obtain b c d where "foldl aabb_slot (PInf, PInf, NInf, NInf) s = (PInf, b, c, d)"
    by (cases "foldl aabb_slot (PInf, PInf, NInf, NInf) s") auto
  then show ?thesis
    by (simp add: computeAABB_def unit_aabb_def jsub_def)
qed

lemma computeAABB_empty: "computeAABB [] = unit_aabb"
  by (simp add: computeAABB_def unit_aabb_def jsub_def)

lemma loop_length:
  "length (foldl (\<lambda>rts i. rts[i := f i (rts ! i)]) xs is) = length xs"
  by (induction "is" arbitrary: xs) simp_all

lemma loop_nth:
  "n \<le> length xs \<Longrightarrow> j < length xs \<Longrightarrow>
   foldl (\<lambda>rts i. rts[i := f i (rts ! i)]) xs [0..<n] ! j = (if j < n then f j (xs ! j) else xs ! j)"
proof (induction n arbitrary: j)
  case 0
  then show ?case by simp
next
  case (Suc n)
  let ?ys = "foldl (\<lambda>rts i. rts[i := f i (rts ! i)]) xs [0..<n]"
  have len: "length ?ys = length xs" by (rule loop_length)
  from Suc.prems have n: "n < length xs" by simp
  have at_n: "?ys ! n = xs ! n" using Suc.IH [of n] n by simp
  have at_j: "?ys ! j = (if j < n then f j (xs ! j) else xs ! j)"
    using Suc.IH [of j] Suc.prems by simp
  have "foldl (\<lambda>rts i. rts[i := f i (rts ! i)]) xs [0..<Suc n] = ?ys[n := f n (?ys ! n)]"
    by simp
  then show ?case
    using at_n at_j n len Suc.prems(2) by (cases "j = n") (simp_all add: nth_list_update)
qed

lemma layoutGrid_length: "length (layoutGrid rts W H) = length rts"
  by (simp add: layoutGrid_def Let_def loop_length)

lemma layoutGrid_nth:
  assumes "i < length rts"
  shows "layoutGrid rts W H ! i =
     layout_body (grid_cols (length rts))
       (jdiv W (Fin (real (grid_cols (length rts)))))
       (jdiv H (Fin (real (grid_rows (length rts))))) i (rts ! i)"
proof -
  from assms have "length rts \<noteq> 0" by auto
  then show ?thesis
    using assms by (simp add: layoutGrid_def Let_def loop_nth)
qed

lemma layoutGrid_frame:
  assumes "i < length rts" "j < length rts" "j \<noteq> i"
  shows "layoutGrid (rts[i := r]) W H ! j = layoutGrid rts W H ! j"
  using assms by (simp add: layoutGrid_nth)

lemma grid_cols_eq:
  assumes "0 < c" "(c - 1)\<^sup>2 < n" "n \<le> c\<^sup>2"
  shows "grid_cols n = c"
proof -
  have up: "sqrt (real n) \<le> real c"
    using assms(3) by (intro real_le_lsqrt) (simp_all flip: of_nat_power)
  have "real ((c - 1)\<^sup>2) < real n"
    using assms(2) by (simp only: of_nat_less_iff)
  moreover have "real (c - 1) = real c - 1"
    using assms(1) by (simp add: of_nat_diff)
  ultimately have "(real c - 1)\<^sup>2 < real n"
    by simp
  then have lo: "real c - 1 < sqrt (real n)"
    by (rule real_less_rsqrt)
  have "\<lceil>sqrt (real n)\<rceil> = int c"
    using lo up by (intro ceiling_unique) simp_all
  then show ?thesis by (simp add: grid_cols_def)
qed

lemma grid_cols_2: "grid_cols (Suc (Suc 0)) = Suc (Suc 0)"
  by (rule grid_cols_eq) (simp_all add: power2_eq_square)

lemma grid_rows_2: "grid_rows (Suc (Suc 0)) = Suc 0"
  by (simp add: grid_rows_def grid_cols_2)

lemma grid_cols_1: "grid_cols (Suc 0) = Suc 0"
  by (simp add: grid_cols_def)

lemma grid_rows_1: "grid_rows (Suc 0) = Suc 0"
  by (simp add: grid_rows_def grid_cols_1)

lemma computeAABB_mesh:
  "x0 \<le> x1 \<Longrightarrow> y0 \<le> y1 \<Longrightarrow> computeAABB (mesh_skeleton x0 y0 x1 y1) =
     \<lparr>a_minX = Fin x0, a_minY = Fin y0, a_maxX = Fin x1, a_maxY = Fin y1,
      a_width = Fin (x1 - x0), a_height = Fin (y1 - y0)\<rparr>"
  by (simp add: mesh_skeleton_def computeAABB_def jgt_def jsub_def)

section \<open>Facts about the watchdog and the renderer\<close>

lemma step_cases:
  "watchdog_step ws (t, iv) =
     (if \<not> iv then (0, False)
      else if ws = 0 then (t, False)
      else if 600 < t - ws then (0, True) else (ws, False))"
  by (simp add: watchdog_step_def watchdogLimitMs_def)

lemma fires_iff:
  "fires fr n \<longleftrightarrow> snd (fr n) \<and> watchdogStart_at fr n \<noteq> 0 \<and> 600 < fst (fr n) - watchdogStart_at fr n"
  by (cases "fr n") (simp add: fires_def step_cases)

lemma start_Suc:
  "watchdogStart_at fr (Suc n) =
     (if \<not> snd (fr n) then 0
      else if watchdogStart_at fr n = 0 then fst (fr n)
      else if fires fr n then 0 else watchdogStart_at fr n)"
  by (cases "fr n") (simp add: fires_def step_cases)

lemma running_timer:
  "watchdogStart_at fr n \<noteq> 0 \<Longrightarrow>
   \<exists>j<n. watchdogStart_at fr n = fst (fr j) \<and> (\<forall>m. j \<le> m \<and> m < n \<longrightarrow> snd (fr m) \<and> \<not> fires fr m)"
proof (induction n)
  case 0
  then show ?case by simp
next
  case (Suc n)
  note Suc_simp = watchdogStart_at.simps(2)
  from Suc.prems have inv: "snd (fr n)"
    by (auto simp: start_Suc simp del: Suc_simp split: if_splits)
  show ?case
  proof (cases "watchdogStart_at fr n = 0")
    case True
    then have "watchdogStart_at fr (Suc n) = fst (fr n)" using inv by (simp add: start_Suc del: Suc_simp)
    moreover have "\<not> fires fr n" using True by (simp add: fires_iff)
    ultimately show ?thesis using inv by (intro exI [of _ n]) (auto simp: le_less_Suc_eq)
  next
    case False
    with Suc.prems inv have nf: "\<not> fires fr n" and same: "watchdogStart_at fr (Suc n) = watchdogStart_at fr n"
      by (auto simp: start_Suc simp del: Suc_simp split: if_splits)
    from Suc.IH [OF False] obtain j where j: "j < n" "watchdogStart_at fr n = fst (fr j)"
      "\<forall>m. j \<le> m \<and> m < n \<longrightarrow> snd (fr m) \<and> \<not> fires fr m" by blast
    have "\<forall>m. j \<le> m \<and> m < Suc n \<longrightarrow> snd (fr m) \<and> \<not> fires fr m"
      using j(3) inv nf by (auto simp: less_Suc_eq)
    with j(1,2) same show ?thesis by (intro exI [of _ j]) auto
  qed
qed

lemma fires_run:
  assumes "fires fr k"
  shows "\<exists>j<k. (\<forall>m. j \<le> m \<and> m \<le> k \<longrightarrow> snd (fr m)) \<and> (\<forall>m. j \<le> m \<and> m < k \<longrightarrow> \<not> fires fr m) \<and>
     watchdogStart_at fr k = fst (fr j) \<and> 600 < fst (fr k) - fst (fr j)"
proof -
  from assms have a: "snd (fr k)" "watchdogStart_at fr k \<noteq> 0" "600 < fst (fr k) - watchdogStart_at fr k"
    by (simp_all add: fires_iff)
  from running_timer [OF a(2)] obtain j where j: "j < k" "watchdogStart_at fr k = fst (fr j)"
    "\<forall>m. j \<le> m \<and> m < k \<longrightarrow> snd (fr m) \<and> \<not> fires fr m" by blast
  have "\<forall>m. j \<le> m \<and> m \<le> k \<longrightarrow> snd (fr m)"
    using j(3) a(1) by (auto simp: le_less)
  with j a(3) show ?thesis by (intro exI [of _ j]) auto
qed

lemma onError_calls_zero: "(\<forall>k<n. \<not> fires fr k) \<Longrightarrow> onError_calls fr n = 0"
  by (simp add: onError_calls_def filter_empty_conv)

lemma fires_rearm: "fires fr n \<Longrightarrow> watchdogStart_at fr (Suc n) = 0"
  by (simp add: start_Suc fires_iff del: watchdogStart_at.simps(2))

lemma quiet_timer_constant:
  assumes "\<forall>n. snd (fr n)" "\<forall>k\<ge>n. \<not> fires fr k" "watchdogStart_at fr n \<noteq> 0" "n \<le> k"
  shows "watchdogStart_at fr k = watchdogStart_at fr n"
  using assms(4)
proof (induction k)
  case 0
  then show ?case by simp
next
  case (Suc k)
  show ?case
  proof (cases "n = Suc k")
    case True
    then show ?thesis by simp
  next
    case False
    with Suc.prems have nk: "n \<le> k" by simp
    with Suc.IH have eq: "watchdogStart_at fr k = watchdogStart_at fr n" by simp
    from assms(2) nk have "\<not> fires fr k" by simp
    with assms(1,3) eq show ?thesis
      by (simp add: start_Suc del: watchdogStart_at.simps(2))
  qed
qed

lemma fires_again:
  assumes inv: "\<forall>n. snd (fr n)" and nz: "\<forall>n. fst (fr n) \<noteq> 0"
    and unb: "\<forall>n T. \<exists>k\<ge>n. T < fst (fr k)"
  shows "\<exists>k\<ge>n. fires fr k"
proof (rule ccontr)
  assume "\<not> (\<exists>k\<ge>n. fires fr k)"
  then have quiet: "\<forall>k\<ge>n. \<not> fires fr k" by simp
  then have "\<not> fires fr n" by simp
  with inv nz have armed: "watchdogStart_at fr (Suc n) \<noteq> 0"
    by (simp add: start_Suc del: watchdogStart_at.simps(2))
  from quiet have quiet': "\<forall>k\<ge>Suc n. \<not> fires fr k" by simp
  from unb obtain k where k: "Suc n \<le> k" "watchdogStart_at fr (Suc n) + 600 < fst (fr k)"
    by blast
  from quiet_timer_constant [OF inv quiet' armed k(1)]
  have "watchdogStart_at fr k = watchdogStart_at fr (Suc n)" .
  with armed k(2) inv have "fires fr k" by (simp add: fires_iff)
  with quiet' k(1) show False by simp
qed

lemma fires_spacing:
  assumes "fires fr j" "fires fr k" "j < k" and mono: "\<forall>i j. i \<le> j \<longrightarrow> fst (fr i) \<le> fst (fr j)"
  shows "600 < fst (fr k) - fst (fr j)"
proof -
  from fires_run [OF assms(2)] obtain j' where j': "j' < k"
    "\<forall>m. j' \<le> m \<and> m < k \<longrightarrow> \<not> fires fr m" "600 < fst (fr k) - fst (fr j')" by blast
  from j'(2) assms(1,3) have "j < j'" by (meson not_le_imp_less)
  with mono have "fst (fr j) \<le> fst (fr j')" by simp
  with j'(3) show ?thesis by simp
qed

lemma sb_zero_invisible:
  "invisible (Fin (1 / 10000)) (sb_w (getBounds_sb zero_box)) (sb_h (getBounds_sb zero_box))"
  by (simp add: invisible_def getBounds_sb_def zero_box_def Math_max_def jsub_def Let_def)

lemma frames_sustained_simp: "frames_sustained k = (100 * real (Suc k), True)"
  by (simp add: frames_sustained_def sb_zero_invisible)

lemma getBounds_never_invisible:
  "\<not> invisible (Fin (1 / 1000000)) (b_w (getBounds s)) (b_h (getBounds s))"
proof -
  from getBounds_shape [of s] obtain a b c d where
    "a \<le> c" "b \<le> d" "getBounds s = bounds_of (Fin a, Fin b, Fin c, Fin d)" by blast
  moreover have "\<not> max 50 x * 1000000 < 1" for x :: real
    by (simp add: max_def)
  ultimately show ?thesis
    by (simp add: bounds_of_fin invisible_def)
qed

section \<open>Further facts about the camera fit\<close>

lemma getBounds_mesh:
  "x0 \<le> x1 \<Longrightarrow> y0 \<le> y1 \<Longrightarrow>
   getBounds (mesh_skeleton x0 y0 x1 y1) = bounds_of (Fin x0, Fin y0, Fin x1, Fin y1)"
  by (simp add: mesh_skeleton_def getBounds_def scan_slots_def hasInvalidBounds_def
      Math_min_def Math_max_def jgt_def Let_def)

lemma box_of_bounds_of: "box_of (bounds_of (a, b, c, d)) = (a, b, c, d)"
  by (simp add: box_of_def bounds_of_def Let_def)

lemma clamp_range: "lo \<le> hi \<Longrightarrow> lo \<le> clamp x lo hi \<and> clamp x lo hi \<le> hi"
  by (simp add: clamp_def)

lemma fitCamera_center_wide_bounds:
  assumes "box_of (getBounds s) = (Fin a, Fin b, Fin c, Fin d)" "50 \<le> c - a" "50 \<le> d - b"
  shows "position_x (fitCamera s cssW cssH padding) = Fin ((a + c) / 2) \<and>
         position_y (fitCamera s cssW cssH padding) = Fin ((b + d) / 2)"
proof -
  from getBounds_shape [of s] obtain a' b' c' d' where
    o: "a' \<le> c'" "b' \<le> d'" and g: "getBounds s = bounds_of (Fin a', Fin b', Fin c', Fin d')" by blast
  with assms(1) have e: "a' = a" "b' = b" "c' = c" "d' = d"
    by (simp_all add: box_of_bounds_of)
  have "a + (c - a) / 2 = (a + c) / 2" "b + (d - b) / 2 = (b + d) / 2"
    by (simp_all add: field_simps)
  then show ?thesis
    using assms(2,3) o
    by (simp add: fitCamera_def Let_def g bounds_of_fin e max_def)
qed

section \<open>Further facts about the grid, the watchdog frames and the renderer\<close>

lemma grid_cols_pos: "0 < n \<Longrightarrow> 0 < grid_cols n"
proof -
  assume "0 < n"
  then have "0 < sqrt (real n)" by simp
  then have "0 < \<lceil>sqrt (real n)\<rceil>" by (simp add: ceiling_less_iff flip: less_ceiling_iff)
  then show ?thesis by (simp add: grid_cols_def)
qed

lemma grid_rows_pos: "0 < n \<Longrightarrow> 0 < grid_rows n"
proof -
  assume n: "0 < n"
  then have "0 < real n / real (grid_cols n)" using grid_cols_pos [OF n] by simp
  then have "0 < \<lceil>real n / real (grid_cols n)\<rceil>" by (simp flip: less_ceiling_iff)
  then show ?thesis by (simp add: grid_rows_def)
qed

lemma grid_cells_suffice: "0 < n \<Longrightarrow> n \<le> grid_cols n * grid_rows n"
proof -
  assume n: "0 < n"
  let ?c = "grid_cols n"
  have c: "0 < real ?c" using grid_cols_pos [OF n] by simp
  have "real n / real ?c \<le> of_int \<lceil>real n / real ?c\<rceil>" by (rule le_of_int_ceiling)
  also have "\<dots> = real (grid_rows n)"
    using grid_rows_pos [OF n] by (simp add: grid_rows_def)
  finally have "real n \<le> real (grid_rows n) * real ?c"
    using c by (simp add: pos_divide_le_eq)
  then have "real n \<le> real (?c * grid_rows n)" by (simp add: mult.commute)
  then show ?thesis by (simp only: of_nat_le_iff)
qed

lemma layout_body_fin:
  assumes "computeAABB (rt_slots rt) =
      \<lparr>a_minX = Fin x0, a_minY = Fin y0, a_maxX = Fin x1, a_maxY = Fin y1,
       a_width = Fin w, a_height = Fin h\<rparr>"
  shows "placement_of (layout_body cols (Fin cw) (Fin ch) i rt) =
     \<lparr>scale = Fin (spec_scale cw ch (max w 1) (max h 1) (9 / 10)),
      translateX = Fin (real (i mod cols) * cw + cw / 2
                        - (x0 + max w 1 / 2) * spec_scale cw ch (max w 1) (max h 1) (9 / 10)),
      translateY = Fin (real (i div cols) * ch + ch / 2
                        - (y0 + max h 1 / 2) * spec_scale cw ch (max w 1) (max h 1) (9 / 10))\<rparr>"
proof -
  have nz: "max w 1 \<noteq> 0" "max h 1 \<noteq> 0" by (simp_all add: max_def)
  have bw: "Math_max (Fin w) (Fin 1) = Fin (max w 1)" "Math_max (Fin h) (Fin 1) = Fin (max h 1)"
    by (simp_all add: Math_max_Fin)
  have d: "jdiv (Fin cw) (Fin (max w 1)) = Fin (cw / max w 1)"
          "jdiv (Fin ch) (Fin (max h 1)) = Fin (ch / max h 1)"
    using nz by simp_all
  show ?thesis
    unfolding layout_body_def Let_def assms aabb.simps bw d Math_min_Fin PADDING_RATIO_def
      placement_of_def spec_scale_def
    by (simp add: jsub_def)
qed

lemma ceiling_sqrt_2: "\<lceil>sqrt 2\<rceil> = 2"
proof -
  have "1 < sqrt 2" by (rule real_less_rsqrt) simp
  moreover have "sqrt 2 \<le> 2" by (rule real_le_lsqrt) simp_all
  ultimately show ?thesis by (intro ceiling_unique) simp_all
qed

lemma alternating_runs_short:
  assumes "j \<le> k" "\<forall>m. j \<le> m \<and> m \<le> k \<longrightarrow> snd (frames_alternating m)"
  shows "fst (frames_alternating k) - fst (frames_alternating j) \<le> watchdogLimitMs"
proof -
  have "j = k"
  proof (rule ccontr)
    assume "j \<noteq> k"
    with assms(1) have "Suc j \<le> k" by simp
    with assms(2) have "snd (frames_alternating j)" "snd (frames_alternating (Suc j))" by simp_all
    then show False by (simp add: frames_alternating_def)
  qed
  then show ?thesis by (simp add: watchdogLimitMs_def)
qed

lemma sustained_unbounded: "\<exists>k\<ge>n. T < fst (frames_sustained k)"
proof -
  obtain m :: nat where m: "T < real m" using reals_Archimedean2 by blast
  have "T < 100 * real (Suc (max n m))"
    using m by (simp add: max_def)
  then show ?thesis
    by (intro exI [of _ "max n m"]) (simp add: frames_sustained_simp)
qed

lemma sustained_start_7: "watchdogStart_at frames_sustained 7 = 100"
  by (simp add: eval_nat_numeral frames_sustained_simp step_cases)

lemma sustained_fires_7: "fires frames_sustained 7"
  by (simp add: fires_iff sustained_start_7 frames_sustained_simp)

lemma sustained_start_15: "watchdogStart_at frames_sustained 15 = 900"
  by (simp add: eval_nat_numeral frames_sustained_simp step_cases)

lemma sustained_fires_15: "fires frames_sustained 15"
  by (simp add: fires_iff sustained_start_15 frames_sustained_simp)

lemma sustained_calls_16: "onError_calls frames_sustained 16 = 2"
  by (simp add: onError_calls_def fires_iff upt_rec [of 0] eval_nat_numeral frames_sustained_simp step_cases)

section \<open>Facts about the mounted renderer and about canvas and renderer together\<close>







lemma first_signal_switches:
  "step (mount_renderer WebGL True sp ap) WebglError =
     Some ((mount_renderer WebGL True sp ap)\<lparr>held := (mount WebGL True sp ap)\<lparr>forcePlayer := True\<rparr>\<rparr>,
           [ConsoleError, ConsoleLog, SetForcePlayer True])"
  by (simp add: onError_def canvas_mounted_def effectiveMode_def mount_renderer_def mount_def
      handleWebglError_def)


lemma onError_calls_Suc:
  "onError_calls fr (Suc n) = onError_calls fr n + (if fires fr n then 1 else 0)"
  by (simp add: onError_calls_def)

lemma system_quiet:
  "(\<forall>k<n. \<not> fires fr k) \<Longrightarrow>
   system_at fr m n = (m, (if canvas_mounted m then watchdogStart_at fr n else 0), [])"
proof (induction n)
  case 0
  then show ?case by simp
next
  case (Suc n)
  then have ih: "system_at fr m n = (m, (if canvas_mounted m then watchdogStart_at fr n else 0), [])"
    and nf: "\<not> fires fr n" by simp_all
  from nf have "\<not> snd (watchdog_step (watchdogStart_at fr n) (fr n))" by (simp add: fires_def)
  then show ?case
    by (cases "watchdog_step (watchdogStart_at fr n) (fr n)") (simp add: ih)
qed

lemma system_frozen:
  "system_at fr m0 n = (m, ws, es) \<Longrightarrow> \<not> canvas_mounted m \<Longrightarrow>
   system_at fr m0 (n + j) = (m, ws, es)"
  by (induction j) simp_all

lemma switched_unmounted: "\<not> canvas_mounted (switched (mount_renderer WebGL True sp ap))"
  by (simp add: canvas_mounted_def switched_def effectiveMode_def mount_renderer_def mount_def)

lemma system_first_fire:
  assumes "fires fr k" "\<forall>l<k. \<not> fires fr l"
  shows "system_at fr (mount_renderer WebGL True sp ap) (Suc k) =
     (switched (mount_renderer WebGL True sp ap), 0, [ConsoleError, ConsoleLog, SetForcePlayer True])"
proof -
  let ?m = "mount_renderer WebGL True sp ap"
  have cm: "canvas_mounted ?m"
    by (simp add: canvas_mounted_def effectiveMode_def mount_renderer_def mount_def)
  from system_quiet [OF assms(2), of ?m] cm
  have q: "system_at fr ?m k = (?m, watchdogStart_at fr k, [])" by simp
  from assms(1) have f: "snd (watchdog_step (watchdogStart_at fr k) (fr k))" by (simp add: fires_def)
  from fires_rearm [OF assms(1)] have z: "fst (watchdog_step (watchdogStart_at fr k) (fr k)) = 0"
    by simp
  have o: "onError ?m = Some (?m\<lparr>held := (mount WebGL True sp ap)\<lparr>forcePlayer := True\<rparr>\<rparr>,
      [ConsoleError, ConsoleLog, SetForcePlayer True])"
    using first_signal_switches [of sp ap] by simp
  have r: "rerender (?m\<lparr>held := (mount WebGL True sp ap)\<lparr>forcePlayer := True\<rparr>\<rparr>) = switched ?m"
    by (simp add: rerender_def switched_def mount_renderer_def)
  from f z show ?thesis
    by (cases "watchdog_step (watchdogStart_at fr k) (fr k)") (simp add: q cm o r)
qed

lemma system_after_first_fire:
  assumes "fires fr k" "\<forall>l<k. \<not> fires fr l" "k < n"
  shows "system_at fr (mount_renderer WebGL True sp ap) n =
     (switched (mount_renderer WebGL True sp ap), 0, [ConsoleError, ConsoleLog, SetForcePlayer True])"
proof -
  from assms(3) obtain j where n: "n = Suc k + j" using less_iff_Suc_add by auto
  show ?thesis
    unfolding n
    by (rule system_frozen [OF system_first_fire [OF assms(1,2)] switched_unmounted])
qed

lemma system_without_fallback:
  "system_at fr (mount_renderer WebGL False sp ap) n =
     (mount_renderer WebGL False sp ap, watchdogStart_at fr n,
      replicate (onError_calls fr n) ConsoleError)"
proof (induction n)
  case 0
  then show ?case by (simp add: onError_calls_def)
next
  case (Suc n)
  let ?m = "mount_renderer WebGL False sp ap"
  have cm: "canvas_mounted ?m"
    by (simp add: canvas_mounted_def effectiveMode_def mount_renderer_def mount_def)
  have o: "onError ?m = Some (?m, [ConsoleError])"
    by (simp add: onError_def cm handleWebglError_def) (simp add: mount_renderer_def mount_def)
  have r: "rerender ?m = ?m" by (simp add: rerender_def mount_renderer_def)
  show ?case
    by (cases "watchdog_step (watchdogStart_at fr n) (fr n)")
      (simp add: Suc.IH cm o r onError_calls_Suc fires_def replicate_append_same)
qed

lemma system_parent_cases:
  "fst (system_at fr (mount_renderer mode fb sp ap) n) = mount_renderer mode fb sp ap \<or>
   (fst (system_at fr (mount_renderer mode fb sp ap) n) = switched (mount_renderer mode fb sp ap) \<and>
    fb \<and> mode = WebGL)"
proof (induction n)
  case 0
  then show ?case by simp
next
  case (Suc n)
  let ?m = "mount_renderer mode fb sp ap"
  obtain p ws es where st: "system_at fr ?m n = (p, ws, es)" by (cases "system_at fr ?m n") auto
  obtain ws' fired where wd: "watchdog_step ws (fr n) = (ws', fired)"
    by (cases "watchdog_step ws (fr n)") auto
  from Suc.IH st consider "p = ?m" | "p = switched ?m" "fb" "mode = WebGL" by auto
  then show ?case
  proof cases
    case 1
    show ?thesis
    proof (cases "canvas_mounted ?m \<and> fired")
      case False
      with st wd 1 show ?thesis by auto
    next
      case True
      then have mode: "mode = WebGL"
        by (simp add: canvas_mounted_def effectiveMode_def mount_renderer_def mount_def)
      show ?thesis
      proof (cases fb)
        case True
        have "onError ?m = Some (?m\<lparr>held := (mount WebGL True sp ap)\<lparr>forcePlayer := True\<rparr>\<rparr>,
            [ConsoleError, ConsoleLog, SetForcePlayer True])"
          using first_signal_switches [of sp ap] mode True by simp
        moreover have "rerender (?m\<lparr>held := (mount WebGL True sp ap)\<lparr>forcePlayer := True\<rparr>\<rparr>) = switched ?m"
          using mode True by (simp add: rerender_def switched_def mount_renderer_def)
        ultimately show ?thesis
          using st wd 1 \<open>canvas_mounted ?m \<and> fired\<close> mode True by simp
      next
        case False
        have "onError ?m = Some (?m, [ConsoleError])"
          using \<open>canvas_mounted ?m \<and> fired\<close> False
          by (simp add: onError_def handleWebglError_def) (simp add: mount_renderer_def mount_def)
        moreover have "rerender ?m = ?m" by (simp add: rerender_def mount_renderer_def)
        ultimately show ?thesis
          using st wd 1 \<open>canvas_mounted ?m \<and> fired\<close> by simp
      qed
    qed
  next
    case 2
    then have "\<not> canvas_mounted p" using switched_unmounted [of sp ap] by simp
    with st 2 show ?thesis by simp
  qed
qed

lemma guard_never_decides:
  assumes "canvas_mounted (fst (system_at fr (mount_renderer mode fb sp ap) n))"
  shows "\<not> forcePlayer (shown (fst (system_at fr (mount_renderer mode fb sp ap) n)))"
proof -
  from system_parent_cases [of fr mode fb sp ap n] assms switched_unmounted [of sp ap]
  have "fst (system_at fr (mount_renderer mode fb sp ap) n) = mount_renderer mode fb sp ap"
    by auto
  then show ?thesis by (simp add: mount_renderer_def mount_def)
qed

lemma clamped_never_fires:
  "\<not> fires (\<lambda>k. (ts k, invisible (Fin (1 / 1000000)) (b_w (getBounds (sk k))) (b_h (getBounds (sk k))))) n"
  by (simp add: fires_iff getBounds_never_invisible)

lemma next_firing:
  assumes inv: "\<forall>k. snd (fr k)" and nz: "\<forall>k. fst (fr k) \<noteq> 0"
    and mono: "\<forall>i j. i \<le> j \<longrightarrow> fst (fr i) \<le> fst (fr j)"
    and unb: "\<forall>T. \<exists>k. T < fst (fr k)"
    and gap: "\<forall>k. fst (fr (Suc k)) - fst (fr k) \<le> d"
    and f: "fires fr n"
  shows "\<exists>k>n. fires fr k \<and> (\<forall>l. n < l \<and> l < k \<longrightarrow> \<not> fires fr l) \<and>
           600 < fst (fr k) - fst (fr n) \<and> fst (fr k) - fst (fr n) \<le> 600 + 2 * d"
proof -
  let ?s = "Suc n"
  let ?t = "\<lambda>k. fst (fr k)"
  let ?P = "\<lambda>k. ?s < k \<and> 600 < ?t k - ?t ?s"
  note Suc_simp = watchdogStart_at.simps(2)
  have ws_s: "watchdogStart_at fr ?s = 0" using f by (rule fires_rearm)
  then have nf_s: "\<not> fires fr ?s" by (simp add: fires_iff del: Suc_simp)
  have ws_ss: "watchdogStart_at fr (Suc ?s) = ?t ?s"
    using inv ws_s by (simp add: start_Suc [of fr ?s] del: Suc_simp)
  from unb obtain k0 where k0: "?t ?s + 600 < ?t k0" by blast
  have "?s < k0"
  proof (rule ccontr)
    assume "\<not> ?s < k0"
    then have "k0 \<le> ?s" by simp
    with mono have "?t k0 \<le> ?t ?s" by blast
    with k0 show False by simp
  qed
  with k0 have "?P k0" by simp
  define k where "k = (LEAST k. ?P k)"
  have Pk: "?P k" unfolding k_def using \<open>?P k0\<close> by (rule LeastI)
  have least: "\<not> ?P l" if "l < k" for l
    using that unfolding k_def by (rule not_less_Least)
  have run: "watchdogStart_at fr m = ?t ?s \<and> (\<forall>l. ?s \<le> l \<and> l < m \<longrightarrow> \<not> fires fr l)"
    if "?s < m" "m \<le> k" for m
    using that
  proof (induction m)
    case 0
    then show ?case by simp
  next
    case (Suc m)
    show ?case
    proof (cases "m = ?s")
      case True
      with ws_ss nf_s show ?thesis by (auto simp del: Suc_simp simp: le_less_Suc_eq)
    next
      case False
      with Suc.prems have sm: "?s < m" "m \<le> k" "m < k" by simp_all
      from Suc.IH [OF sm(1,2)] have ih: "watchdogStart_at fr m = ?t ?s"
        "\<forall>l. ?s \<le> l \<and> l < m \<longrightarrow> \<not> fires fr l" by simp_all
      from least [OF sm(3)] sm(1) have "\<not> 600 < ?t m - ?t ?s" by simp
      with ih(1) have nf: "\<not> fires fr m" by (simp add: fires_iff)
      have "watchdogStart_at fr (Suc m) = ?t ?s"
        using inv nz nf ih(1) by (simp add: start_Suc [of fr m] del: Suc_simp)
      moreover have "\<forall>l. ?s \<le> l \<and> l < Suc m \<longrightarrow> \<not> fires fr l"
        using ih(2) nf by (auto simp: less_Suc_eq)
      ultimately show ?thesis by simp
    qed
  qed
  from Pk have sk: "?s < k" and late: "600 < ?t k - ?t ?s" by simp_all
  from run [OF sk] have at_k: "watchdogStart_at fr k = ?t ?s"
    and quiet: "\<forall>l. ?s \<le> l \<and> l < k \<longrightarrow> \<not> fires fr l" by simp_all
  from at_k late inv nz have fk: "fires fr k" by (simp add: fires_iff)
  have q: "\<forall>l. n < l \<and> l < k \<longrightarrow> \<not> fires fr l" using quiet by (simp add: Suc_le_eq)
  from mono have ns: "?t n \<le> ?t ?s" by simp
  with late have lo: "600 < ?t k - ?t n" by simp
  from sk obtain k' where k': "k = Suc k'" "?s \<le> k'" by (cases k) auto
  have "?t k' - ?t ?s \<le> 600"
  proof (cases "k' = ?s")
    case True
    then show ?thesis by simp
  next
    case False
    with k' have "?s < k'" "k' < k" by simp_all
    with least [of k'] show ?thesis by simp
  qed
  moreover from gap have "?t k - ?t k' \<le> d" unfolding k'(1) by blast
  moreover from gap have "?t ?s - ?t n \<le> d" by blast
  ultimately have hi: "?t k - ?t n \<le> 600 + 2 * d" by simp
  from sk have "n < k" by simp
  with fk q lo hi show ?thesis by blast
qed

lemma first_firing:
  assumes inv: "\<forall>k. snd (fr k)" and nz: "\<forall>k. fst (fr k) \<noteq> 0"
    and mono: "\<forall>i j. i \<le> j \<longrightarrow> fst (fr i) \<le> fst (fr j)"
    and unb: "\<forall>T. \<exists>k. T < fst (fr k)"
  shows "\<exists>k. fires fr k"
proof -
  have "\<exists>l\<ge>k. T < fst (fr l)" for k T
  proof -
    from unb obtain k0 where k0: "T < fst (fr k0)" by blast
    from mono have "fst (fr k0) \<le> fst (fr (max k k0))" by simp
    with k0 show ?thesis by (intro exI [of _ "max k k0"]) simp
  qed
  then have "\<forall>k T. \<exists>l\<ge>k. T < fst (fr l)" by blast
  from fires_again [OF inv nz this, of 0] show ?thesis by blast
qed

lemma sustained_gap: "fst (frames_sustained (Suc k)) - fst (frames_sustained k) \<le> 100"
  by (simp add: frames_sustained_simp)

lemma sustained_quiet_before_7: "\<forall>l<7. \<not> fires frames_sustained l"
proof (intro allI impI)
  fix l :: nat
  assume "l < 7"
  then consider "l = 0" | "l = 1" | "l = 2" | "l = 3" | "l = 4" | "l = 5" | "l = 6" by linarith
  then show "\<not> fires frames_sustained l"
    by cases (simp_all add: fires_iff eval_nat_numeral frames_sustained_simp step_cases)
qed


lemma two_signals_before_render:
  "run (mount_renderer WebGL True sp ap) [WebglError, WebglError] =
     Some ((mount_renderer WebGL True sp ap)\<lparr>held := (mount WebGL True sp ap)\<lparr>forcePlayer := True\<rparr>\<rparr>,
           [ConsoleError, ConsoleLog, SetForcePlayer True, ConsoleError, ConsoleLog, SetForcePlayer True])"
  by (simp add: onError_def canvas_mounted_def effectiveMode_def mount_renderer_def mount_def
      handleWebglError_def)

section \<open>The bounds scan against the specification\<close>

text \<open>
  When every vertex of every region attachment is finite, \<open>getBounds\<close> returns what
  the specification asks for: the union box over the finite points, or the default box
  when there is none.  In the SkeletonBounds variant the zoom is not clamped.
\<close>

lemma mesh_vertex_finite: "finite_point p \<Longrightarrow> mesh_vertex e p = region_vertex e p"
  by (cases p) (simp add: finite_point_def)

lemma scan_slot_as_mesh:
  assumes "\<forall>p0 p1 p2 p3. sl = Some (RegionAttachment p0 p1 p2 p3) \<longrightarrow>
     finite_point p0 \<and> finite_point p1 \<and> finite_point p2 \<and> finite_point p3"
  shows "scan_slot e sl = foldl mesh_vertex e (slot_points sl)"
proof (cases sl)
  case None
  then show ?thesis by simp
next
  case (Some att)
  show ?thesis
  proof (cases att)
    case (RegionAttachment p0 p1 p2 p3)
    with Some assms have "finite_point p0" "finite_point p1" "finite_point p2" "finite_point p3"
      by blast+
    with Some RegionAttachment show ?thesis by (simp add: mesh_vertex_finite)
  next
    case (MeshAttachment vs)
    with Some show ?thesis by simp
  next
    case OtherAttachment
    with Some show ?thesis by simp
  qed
qed

lemma foldl_scan_as_mesh:
  "\<forall>sl\<in>set s. \<forall>p0 p1 p2 p3. sl = Some (RegionAttachment p0 p1 p2 p3) \<longrightarrow>
     finite_point p0 \<and> finite_point p1 \<and> finite_point p2 \<and> finite_point p3 \<Longrightarrow>
   foldl scan_slot e s = foldl mesh_vertex e (all_points s)"
proof (induction s arbitrary: e)
  case Nil
  then show ?case by (simp add: all_points_def)
next
  case (Cons sl s)
  from Cons.prems have a: "scan_slot e sl = foldl mesh_vertex e (slot_points sl)"
    by (intro scan_slot_as_mesh) simp
  from Cons.prems have "foldl scan_slot (scan_slot e sl) s = foldl mesh_vertex (scan_slot e sl) (all_points s)"
    by (intro Cons.IH) simp
  with a show ?case by (simp add: all_points_def)
qed

lemma foldl_mesh_filter:
  "foldl mesh_vertex e ps = foldl region_vertex e (filter finite_point ps)"
  by (induction ps arbitrary: e) (simp_all add: mesh_vertex_finite mesh_vertex_nonfinite)

lemma foldl_region_finite:
  "\<forall>p\<in>set fs. finite_point p \<Longrightarrow>
   foldl region_vertex (Fin a, Fin b, Fin c, Fin d) fs =
     (Fin (fold min (map (real_of \<circ> fst) fs) a), Fin (fold min (map (real_of \<circ> snd) fs) b),
      Fin (fold max (map (real_of \<circ> fst) fs) c), Fin (fold max (map (real_of \<circ> snd) fs) d))"
proof (induction fs arbitrary: a b c d)
  case Nil
  then show ?case by simp
next
  case (Cons p fs)
  from Cons.prems obtain x y where p: "p = (Fin x, Fin y)"
    by (cases p; cases "fst p"; cases "snd p") (auto simp: finite_point_def)
  have "region_vertex (Fin a, Fin b, Fin c, Fin d) p = (Fin (min x a), Fin (min y b), Fin (max x c), Fin (max y d))"
    by (simp add: p Math_min_Fin Math_max_Fin min.commute max.commute)
  with Cons.IH [of "min x a" "min y b" "max x c" "max y d"] Cons.prems show ?case
    by (simp add: p)
qed

lemma scan_finite_points:
  assumes "\<forall>p\<in>set fs. finite_point p" "fs \<noteq> []"
  shows "foldl region_vertex (PInf, PInf, NInf, NInf) fs =
     (Fin (Min (set (map (real_of \<circ> fst) fs))), Fin (Min (set (map (real_of \<circ> snd) fs))),
      Fin (Max (set (map (real_of \<circ> fst) fs))), Fin (Max (set (map (real_of \<circ> snd) fs))))"
proof -
  from assms(2) obtain p ps where fs: "fs = p # ps" by (cases fs) auto
  with assms(1) obtain x y where p: "p = (Fin x, Fin y)"
    by (cases p; cases "fst p"; cases "snd p") (auto simp: finite_point_def)
  have first: "region_vertex (PInf, PInf, NInf, NInf) p = (Fin x, Fin y, Fin x, Fin y)"
    by (simp add: p Math_min_def Math_max_def)
  from assms(1) fs have "\<forall>q\<in>set ps. finite_point q" by simp
  from foldl_region_finite [OF this, of x y x y] first
  have "foldl region_vertex (PInf, PInf, NInf, NInf) fs =
     (Fin (fold min (map (real_of \<circ> fst) ps) x), Fin (fold min (map (real_of \<circ> snd) ps) y),
      Fin (fold max (map (real_of \<circ> fst) ps) x), Fin (fold max (map (real_of \<circ> snd) ps) y))"
    by (simp add: fs)
  moreover have "map (real_of \<circ> fst) fs = x # map (real_of \<circ> fst) ps"
    "map (real_of \<circ> snd) fs = y # map (real_of \<circ> snd) ps"
    by (simp_all add: fs p)
  ultimately show ?thesis
    by (simp only: Min.set_eq_fold Max.set_eq_fold)
qed

lemma getBounds_union_of_finite_points:
  assumes "\<forall>sl\<in>set s. \<forall>p0 p1 p2 p3. sl = Some (RegionAttachment p0 p1 p2 p3) \<longrightarrow>
     finite_point p0 \<and> finite_point p1 \<and> finite_point p2 \<and> finite_point p3"
  shows "box_of (getBounds s) = spec_computeBounds (all_points s)"
proof -
  let ?fs = "filter finite_point (all_points s)"
  have scan: "scan_slots s = foldl region_vertex (PInf, PInf, NInf, NInf) ?fs"
    unfolding scan_slots_def foldl_scan_as_mesh [OF assms] by (rule foldl_mesh_filter)
  show ?thesis
  proof (cases "?fs = []")
    case True
    then have "hasInvalidBounds (scan_slots s)" by (simp add: scan hasInvalidBounds_def)
    with True show ?thesis
      by (simp add: getBounds_def spec_computeBounds_def box_of_bounds_of default_box_def Let_def)
  next
    case False
    let ?xs = "map (real_of \<circ> fst) ?fs" and ?ys = "map (real_of \<circ> snd) ?fs"
    have e: "scan_slots s = (Fin (Min (set ?xs)), Fin (Min (set ?ys)), Fin (Max (set ?xs)), Fin (Max (set ?ys)))"
      unfolding scan by (rule scan_finite_points) (simp_all add: False)
    from False have "?xs \<noteq> []" "?ys \<noteq> []" by simp_all
    then have ne: "set ?xs \<noteq> {}" "set ?ys \<noteq> {}" by (simp_all only: set_empty not_False_eq_True)
    have mm: "Min A \<le> Max A" if "finite A" "A \<noteq> {}" for A :: "real set"
    proof -
      from that(2) obtain a where "a \<in> A" by blast
      with that(1) have "Min A \<le> a" "a \<le> Max A" by simp_all
      then show ?thesis by simp
    qed
    have "Min (set ?xs) \<le> Max (set ?xs)" "Min (set ?ys) \<le> Max (set ?ys)"
      by (rule mm [OF finite_set ne(1)], rule mm [OF finite_set ne(2)])
    then have "\<not> hasInvalidBounds (scan_slots s)"
      unfolding e by (simp add: hasInvalidBounds_def jgt_def del: set_map)
    with False show ?thesis
      by (simp add: getBounds_def spec_computeBounds_def e box_of_bounds_of Let_def del: set_map)
  qed
qed

lemma fitCamera_sb_unclamped:
  "zoom (fitCamera_sb zero_box (Fin 400) (Fin 400) (Fin (11 / 10))) = Fin (11 / 4000000000)"
  by (simp add: fitCamera_sb_def getBounds_sb_def zero_box_def Math_max_def jsub_def Let_def)

section \<open>The claims about the bounds and the camera\<close>

text \<open>
  C1.  The claim: whenever some vertex is finite, \<open>getBounds\<close> returns the union bounding
  box over exactly the finite points, every non-finite point being skipped.  The mesh
  branch does skip them; the region branch has no \<open>isFinite\<close> test.  For a skeleton with
  a healthy mesh spanning \<open>(0,0)\<close> to \<open>(10,10)\<close> and a region attachment with one NaN
  vertex, the NaN reaches the running extremes, the validity check rejects them, and
  \<open>getBounds\<close> returns the default box: the finite points of the whole skeleton are
  lost, where the union box over the finite points is \<open>{0,0,10,10}\<close>.  (With every
  region vertex finite the claim holds, see \<open>getBounds_union_of_finite_points\<close>.)
\<close>

theorem getBounds_region_nan_discards_finite_points:
  "box_of (getBounds ex_region_nan) = (Fin (- 100), Fin (- 100), Fin 100, Fin 100) \<and>
   spec_computeBounds (all_points ex_region_nan) = (Fin 0, Fin 0, Fin 10, Fin 10)"
proof
  show "box_of (getBounds ex_region_nan) = (Fin (- 100), Fin (- 100), Fin 100, Fin 100)"
    by (simp add: ex_region_nan_def getBounds_def scan_slots_def hasInvalidBounds_def
        box_of_bounds_of default_box_def Math_min_def Math_max_def Let_def)
  show "spec_computeBounds (all_points ex_region_nan) = (Fin 0, Fin 0, Fin 10, Fin 10)"
    by (simp add: ex_region_nan_def spec_computeBounds_def all_points_def finite_point_def Let_def)
qed

text \<open>
  C2, as stated, fails on \<open>computeAABB\<close>: for a skeleton without any vertex it returns
  the box \<open>{0,0,1,1}\<close>, not \<open>{-100,-100,100,100}\<close>.
\<close>

theorem computeAABB_empty_counterexample:
  "filter finite_point (all_points []) = [] \<and>
   aabb_box (computeAABB []) = (Fin 0, Fin 0, Fin 1, Fin 1) \<and>
   aabb_box (computeAABB []) \<noteq> (Fin (- 100), Fin (- 100), Fin 100, Fin 100)"
  by (simp add: computeAABB_empty unit_aabb_def aabb_box_def all_points_def)

text \<open>
  C2, amended.  When no point of the skeleton is finite (no vertex at all, or every
  vertex with a NaN or infinite coordinate), \<open>getBounds\<close> returns exactly the box
  \<open>{-100,-100,100,100}\<close>.  \<open>computeAABB\<close> has a fallback of its own, the box
  \<open>{0,0,1,1}\<close>, which it takes when no x coordinate lies below \<open>+Infinity\<close> (no vertex
  at all, or every x coordinate NaN or \<open>+Infinity\<close>).
\<close>

theorem no_finite_point_fallback_box:
  "((\<forall>p\<in>set (all_points s). \<not> finite_point p) \<longrightarrow>
      box_of (getBounds s) = (Fin (- 100), Fin (- 100), Fin 100, Fin 100)) \<and>
   ((\<forall>p\<in>set (all_points s). fst p = NaN \<or> fst p = PInf) \<longrightarrow>
      aabb_box (computeAABB s) = (Fin 0, Fin 0, Fin 1, Fin 1))"
proof (intro conjI impI)
  assume "\<forall>p\<in>set (all_points s). \<not> finite_point p"
  then have "box_of (getBounds s) = default_box" by (rule getBounds_no_finite)
  then show "box_of (getBounds s) = (Fin (- 100), Fin (- 100), Fin 100, Fin 100)"
    by (simp add: default_box_def)
next
  assume "\<forall>p\<in>set (all_points s). fst p = NaN \<or> fst p = PInf"
  then have "computeAABB s = unit_aabb" by (rule computeAABB_fallback)
  then show "aabb_box (computeAABB s) = (Fin 0, Fin 0, Fin 1, Fin 1)"
    by (simp add: unit_aabb_def aabb_box_def)
qed

text \<open>The amended C2 at a mesh whose two vertices are both non-finite.\<close>

theorem no_finite_point_fallback_box_witness:
  "filter finite_point (all_points [Some (MeshAttachment [(NaN, Fin 1), (PInf, NaN)])]) = [] \<and>
   box_of (getBounds [Some (MeshAttachment [(NaN, Fin 1), (PInf, NaN)])]) =
     (Fin (- 100), Fin (- 100), Fin 100, Fin 100) \<and>
   aabb_box (computeAABB [Some (MeshAttachment [(NaN, Fin 1), (PInf, NaN)])]) =
     (Fin 0, Fin 0, Fin 1, Fin 1)"
  using no_finite_point_fallback_box [of "[Some (MeshAttachment [(NaN, Fin 1), (PInf, NaN)])]"]
  by (simp add: all_points_def finite_point_def)

text \<open>
  C3, as stated, fails: for bounds \<open>{0,0,60,60}\<close>, a 400 by 400 viewport and padding
  1.5 the formula of the claim gives \<open>clamp(60 * 1.5 / 400) = 0.225\<close>, whether the width
  is read as \<open>maxX - minX\<close> or as the \<open>w\<close> that \<open>getBounds\<close> returns (both are 60).
  \<open>fitCamera\<close> first raises width and height to \<open>minSize = 100\<close> and returns \<open>0.375\<close>.
\<close>

theorem fitCamera_zoom_floor_counterexample:
  "box_of (getBounds (mesh_skeleton 0 0 60 60)) = (Fin 0, Fin 0, Fin 60, Fin 60) \<and>
   b_w (getBounds (mesh_skeleton 0 0 60 60)) = Fin 60 \<and>
   b_h (getBounds (mesh_skeleton 0 0 60 60)) = Fin 60 \<and>
   zoom (fitCamera (mesh_skeleton 0 0 60 60) (Fin 400) (Fin 400) (Fin (3 / 2))) = Fin (3 / 8) \<and>
   spec_zoom 60 60 (3 / 2) 400 400 (5 / 1000) 5 = 9 / 40 \<and>
   zoom (fitCamera (mesh_skeleton 0 0 60 60) (Fin 400) (Fin 400) (Fin (3 / 2))) \<noteq>
     Fin (spec_zoom 60 60 (3 / 2) 400 400 (5 / 1000) 5)"
proof -
  have g: "getBounds (mesh_skeleton 0 0 60 60) = bounds_of (Fin 0, Fin 0, Fin 60, Fin 60)"
    by (rule getBounds_mesh) simp_all
  have z: "zoom (fitCamera (mesh_skeleton 0 0 60 60) (Fin 400) (Fin 400) (Fin (3 / 2))) = Fin (3 / 8)"
    using zoom_fin [OF _ _ _ _ g, of 400 400 "3 / 2"] by (simp add: clamp_def)
  have s: "spec_zoom 60 60 (3 / 2) 400 400 (5 / 1000) 5 = 9 / 40"
    by (simp add: spec_zoom_def clamp_def)
  show ?thesis
    unfolding z s by (simp add: g box_of_def bounds_of_fin)
qed

text \<open>
  C3, amended.  For every skeleton, every positive finite viewport and every finite
  padding, the bounds that \<open>getBounds\<close> produces are finite and ordered, and \<open>fitCamera\<close>
  returns the zoom of the claim's formula taken at width and height raised to at least
  100, clamped to the fixed range from 0.005 to 5; so the zoom lies in that range.
\<close>

theorem fitCamera_zoom_clamped:
  assumes "0 < vw" "0 < vh"
  shows "\<exists>a b c d. box_of (getBounds s) = (Fin a, Fin b, Fin c, Fin d) \<and> a \<le> c \<and> b \<le> d \<and>
     zoom (fitCamera s (Fin vw) (Fin vh) (Fin p)) =
       Fin (spec_zoom (max 100 (c - a)) (max 100 (d - b)) p vw vh (5 / 1000) 5) \<and>
     5 / 1000 \<le> spec_zoom (max 100 (c - a)) (max 100 (d - b)) p vw vh (5 / 1000) 5 \<and>
     spec_zoom (max 100 (c - a)) (max 100 (d - b)) p vw vh (5 / 1000) 5 \<le> 5"
proof -
  from getBounds_shape [of s] obtain a b c d where
    o: "a \<le> c" "b \<le> d" and g: "getBounds s = bounds_of (Fin a, Fin b, Fin c, Fin d)" by blast
  have "box_of (getBounds s) = (Fin a, Fin b, Fin c, Fin d)"
    by (simp add: g box_of_bounds_of)
  moreover have "zoom (fitCamera s (Fin vw) (Fin vh) (Fin p)) =
       Fin (spec_zoom (max 100 (c - a)) (max 100 (d - b)) p vw vh (5 / 1000) 5)"
    using zoom_fin [OF assms o g] by (simp add: spec_zoom_def)
  moreover have "5 / 1000 \<le> spec_zoom (max 100 (c - a)) (max 100 (d - b)) p vw vh (5 / 1000) 5 \<and>
     spec_zoom (max 100 (c - a)) (max 100 (d - b)) p vw vh (5 / 1000) 5 \<le> 5"
    unfolding spec_zoom_def by (rule clamp_range) simp
  ultimately show ?thesis using o by blast
qed

text \<open>The amended C3 at the bounds \<open>{0,0,60,60}\<close> in a 400 by 400 viewport.\<close>

theorem fitCamera_zoom_clamped_witness:
  "(0::real) < 400 \<and>
   (\<exists>z. zoom (fitCamera (mesh_skeleton 0 0 60 60) (Fin 400) (Fin 400) (Fin (3 / 2))) = Fin z \<and>
        5 / 1000 \<le> z \<and> z \<le> 5)"
proof -
  have h: "(0::real) < 400" by simp
  from fitCamera_zoom_clamped [OF h h, of "mesh_skeleton 0 0 60 60" "3 / 2"]
  show ?thesis by auto
qed

text \<open>
  C7.  The claim: the camera centre is the arithmetic midpoint of the bounds.
  \<open>getBounds\<close> computes the centre as \<open>minX + w / 2\<close> with \<open>w\<close> already raised to at
  least 50, so for bounds narrower than 50 the centre is not the midpoint: for the
  bounds \<open>{0,0,10,10}\<close>, whose midpoint is \<open>(5,5)\<close>, the camera is placed at \<open>(25,25)\<close>.
  (For bounds at least 50 wide and high the centre is the midpoint, see
  \<open>fitCamera_center_wide_bounds\<close>.)
\<close>

theorem fitCamera_center_small_bounds:
  "box_of (getBounds (mesh_skeleton 0 0 10 10)) = (Fin 0, Fin 0, Fin 10, Fin 10) \<and>
   position_x (fitCamera (mesh_skeleton 0 0 10 10) (Fin 400) (Fin 400) (Fin (3 / 2))) = Fin 25 \<and>
   position_y (fitCamera (mesh_skeleton 0 0 10 10) (Fin 400) (Fin 400) (Fin (3 / 2))) = Fin 25"
proof -
  have g: "getBounds (mesh_skeleton 0 0 10 10) = bounds_of (Fin 0, Fin 0, Fin 10, Fin 10)"
    by (rule getBounds_mesh) simp_all
  show ?thesis
    by (simp add: fitCamera_def Let_def g box_of_def bounds_of_fin)
qed

section \<open>The claims about the grid layout\<close>

text \<open>
  C9.  \<open>layoutGrid\<close> works element by element: with the number of runtimes and the
  viewport unchanged, replacing runtime \<open>i\<close> (another pose, other bounds) leaves the
  result at every other index \<open>j\<close> as it was, and so its placement.
\<close>

theorem layoutGrid_per_element:
  "i < length rts \<Longrightarrow> j < length rts \<Longrightarrow> j \<noteq> i \<Longrightarrow>
     length (layoutGrid (rts[i := r]) W H) = length (layoutGrid rts W H) \<and>
     layoutGrid (rts[i := r]) W H ! j = layoutGrid rts W H ! j \<and>
     placement_of (layoutGrid (rts[i := r]) W H ! j) = placement_of (layoutGrid rts W H ! j)"
  by (simp add: layoutGrid_length layoutGrid_frame)

text \<open>C9 at two shapes, the first of which is replaced by a larger one.\<close>

theorem layoutGrid_per_element_witness:
  "(0::nat) < length [shape 0 0 10 10, shape 0 0 20 5] \<and>
   (1::nat) < length [shape 0 0 10 10, shape 0 0 20 5] \<and> (1::nat) \<noteq> 0 \<and>
   placement_of (layoutGrid ([shape 0 0 10 10, shape 0 0 20 5][0 := shape 0 0 40 40]) (Fin 400) (Fin 400) ! 1) =
   placement_of (layoutGrid [shape 0 0 10 10, shape 0 0 20 5] (Fin 400) (Fin 400) ! 1)"
  using layoutGrid_per_element [of 0 "[shape 0 0 10 10, shape 0 0 20 5]" 1 "shape 0 0 40 40" "Fin 400" "Fin 400"]
  by simp

text \<open>
  C4, as stated, fails: \<open>layoutGrid\<close> divides by the width and height raised to at
  least 1.  A single shape with bounds \<open>{0,0,0.5,0.5}\<close> in a 400 by 400 viewport gets the
  scale \<open>min(400/1, 400/1) * 0.9 = 360\<close>, where the formula of the claim gives
  \<open>min(400/0.5, 400/0.5) * 0.9 = 720\<close>.
\<close>

theorem layoutGrid_scale_floor_counterexample:
  "a_width (computeAABB (rt_slots (shape 0 0 (1 / 2) (1 / 2)))) = Fin (1 / 2) \<and>
   a_height (computeAABB (rt_slots (shape 0 0 (1 / 2) (1 / 2)))) = Fin (1 / 2) \<and>
   scale (placement_of (layoutGrid [shape 0 0 (1 / 2) (1 / 2)] (Fin 400) (Fin 400) ! 0)) = Fin 360 \<and>
   spec_scale (400 / 1) (400 / 1) (1 / 2) (1 / 2) (9 / 10) = 720 \<and>
   scale (placement_of (layoutGrid [shape 0 0 (1 / 2) (1 / 2)] (Fin 400) (Fin 400) ! 0)) \<noteq>
     Fin (spec_scale (400 / 1) (400 / 1) (1 / 2) (1 / 2) (9 / 10))"
proof -
  have a: "computeAABB (rt_slots (shape 0 0 (1 / 2) (1 / 2))) =
      \<lparr>a_minX = Fin 0, a_minY = Fin 0, a_maxX = Fin (1 / 2), a_maxY = Fin (1 / 2),
       a_width = Fin (1 / 2 - 0), a_height = Fin (1 / 2 - 0)\<rparr>"
    unfolding shape_def runtime.simps by (rule computeAABB_mesh) simp_all
  have p: "scale (placement_of (layoutGrid [shape 0 0 (1 / 2) (1 / 2)] (Fin 400) (Fin 400) ! 0)) = Fin 360"
    by (simp add: layoutGrid_nth grid_cols_1 grid_rows_1 layout_body_fin [OF a] spec_scale_def)
  have s: "spec_scale (400 / 1) (400 / 1) (1 / 2) (1 / 2) (9 / 10) = 720"
    by (simp add: spec_scale_def)
  show ?thesis unfolding p s by (simp add: a)
qed

text \<open>
  C4, amended.  For \<open>N \<ge> 1\<close> runtimes, a finite viewport and a shape \<open>i\<close> with finite
  bounds: \<open>cols = ceil(sqrt N)\<close> and \<open>rows = ceil(N / cols)\<close> come from the count alone,
  both are positive and the grid has room for all \<open>N\<close> shapes; the cell size is the
  viewport divided by \<open>(cols, rows)\<close>; shape \<open>i\<close> is given the scale
  \<open>min(cellWidth / max(shapeWidth, 1), cellHeight / max(shapeHeight, 1)) * 0.9\<close> and is
  translated so that its centre lands on the centre of cell \<open>(i mod cols, i div cols)\<close>.
  In particular the two shapes \<open>{0,0,10,10}\<close> and \<open>{0,0,20,5}\<close> in a 400 by 400
  viewport give \<open>cols = 2\<close>, \<open>rows = 1\<close>, cells of 200 by 400, and the scales 18 and 9.
\<close>

theorem layoutGrid_placement:
  "(i < length rts \<and>
    computeAABB (rt_slots (rts ! i)) =
      \<lparr>a_minX = Fin x0, a_minY = Fin y0, a_maxX = Fin x1, a_maxY = Fin y1,
       a_width = Fin w, a_height = Fin h\<rparr> \<longrightarrow>
    (let N = length rts;
         cols = nat \<lceil>sqrt (real N)\<rceil>;
         rows = nat \<lceil>real N / real cols\<rceil>;
         cellW = vw / real cols;
         cellH = vh / real rows;
         s = spec_scale cellW cellH (max w 1) (max h 1) (9 / 10)
     in 0 < cols \<and> 0 < rows \<and> N \<le> cols * rows \<and>
        length (layoutGrid rts (Fin vw) (Fin vh)) = N \<and>
        placement_of (layoutGrid rts (Fin vw) (Fin vh) ! i) =
          \<lparr>scale = Fin s,
           translateX = Fin (real (i mod cols) * cellW + cellW / 2 - (x0 + max w 1 / 2) * s),
           translateY = Fin (real (i div cols) * cellH + cellH / 2 - (y0 + max h 1 / 2) * s)\<rparr>)) \<and>
   nat \<lceil>sqrt (real (length [shape 0 0 10 10, shape 0 0 20 5]))\<rceil> = 2 \<and>
   nat \<lceil>real (length [shape 0 0 10 10, shape 0 0 20 5]) / real (2::nat)\<rceil> = 1 \<and>
   placement_of (layoutGrid [shape 0 0 10 10, shape 0 0 20 5] (Fin 400) (Fin 400) ! 0) =
     \<lparr>scale = Fin 18, translateX = Fin (0 * 200 + 200 / 2 - 5 * 18),
      translateY = Fin (0 * 400 + 400 / 2 - 5 * 18)\<rparr> \<and>
   placement_of (layoutGrid [shape 0 0 10 10, shape 0 0 20 5] (Fin 400) (Fin 400) ! 1) =
     \<lparr>scale = Fin 9, translateX = Fin (1 * 200 + 200 / 2 - 10 * 9),
      translateY = Fin (0 * 400 + 400 / 2 - (5 / 2) * 9)\<rparr>"
proof (intro conjI impI)
  assume h: "i < length rts \<and>
    computeAABB (rt_slots (rts ! i)) =
      \<lparr>a_minX = Fin x0, a_minY = Fin y0, a_maxX = Fin x1, a_maxY = Fin y1,
       a_width = Fin w, a_height = Fin h\<rparr>"
  then have i: "i < length rts" and n: "0 < length rts" by auto
  from h have a: "computeAABB (rt_slots (rts ! i)) =
      \<lparr>a_minX = Fin x0, a_minY = Fin y0, a_maxX = Fin x1, a_maxY = Fin y1,
       a_width = Fin w, a_height = Fin h\<rparr>" by simp
  have c: "0 < grid_cols (length rts)" and r: "0 < grid_rows (length rts)"
    using n by (rule grid_cols_pos, rule grid_rows_pos)
  have d: "jdiv (Fin vw) (Fin (real (grid_cols (length rts)))) = Fin (vw / real (grid_cols (length rts)))"
          "jdiv (Fin vh) (Fin (real (grid_rows (length rts)))) = Fin (vh / real (grid_rows (length rts)))"
    using c r by simp_all
  have p: "placement_of (layoutGrid rts (Fin vw) (Fin vh) ! i) =
      placement_of (layout_body (grid_cols (length rts))
        (Fin (vw / real (grid_cols (length rts)))) (Fin (vh / real (grid_rows (length rts)))) i (rts ! i))"
    by (simp only: layoutGrid_nth [OF i] d)
  show "let N = length rts;
         cols = nat \<lceil>sqrt (real N)\<rceil>;
         rows = nat \<lceil>real N / real cols\<rceil>;
         cellW = vw / real cols;
         cellH = vh / real rows;
         s = spec_scale cellW cellH (max w 1) (max h 1) (9 / 10)
     in 0 < cols \<and> 0 < rows \<and> N \<le> cols * rows \<and>
        length (layoutGrid rts (Fin vw) (Fin vh)) = N \<and>
        placement_of (layoutGrid rts (Fin vw) (Fin vh) ! i) =
          \<lparr>scale = Fin s,
           translateX = Fin (real (i mod cols) * cellW + cellW / 2 - (x0 + max w 1 / 2) * s),
           translateY = Fin (real (i div cols) * cellH + cellH / 2 - (y0 + max h 1 / 2) * s)\<rparr>"
    unfolding Let_def grid_cols_def [symmetric] grid_rows_def [symmetric]
    using c r grid_cells_suffice [OF n]
    by (simp only: p layout_body_fin [OF a] layoutGrid_length)
next
  show "nat \<lceil>sqrt (real (length [shape 0 0 10 10, shape 0 0 20 5]))\<rceil> = 2"
    using grid_cols_2 by (simp add: grid_cols_def)
  show "nat \<lceil>real (length [shape 0 0 10 10, shape 0 0 20 5]) / real (2::nat)\<rceil> = 1"
    by simp
  have a0: "computeAABB (rt_slots (shape 0 0 10 10)) =
      \<lparr>a_minX = Fin 0, a_minY = Fin 0, a_maxX = Fin 10, a_maxY = Fin 10,
       a_width = Fin (10 - 0), a_height = Fin (10 - 0)\<rparr>"
    unfolding shape_def runtime.simps by (rule computeAABB_mesh) simp_all
  have a1: "computeAABB (rt_slots (shape 0 0 20 5)) =
      \<lparr>a_minX = Fin 0, a_minY = Fin 0, a_maxX = Fin 20, a_maxY = Fin 5,
       a_width = Fin (20 - 0), a_height = Fin (5 - 0)\<rparr>"
    unfolding shape_def runtime.simps by (rule computeAABB_mesh) simp_all
  show "placement_of (layoutGrid [shape 0 0 10 10, shape 0 0 20 5] (Fin 400) (Fin 400) ! 0) =
     \<lparr>scale = Fin 18, translateX = Fin (0 * 200 + 200 / 2 - 5 * 18),
      translateY = Fin (0 * 400 + 400 / 2 - 5 * 18)\<rparr>"
    by (simp add: layoutGrid_nth grid_cols_2 grid_rows_2 layout_body_fin [OF a0] spec_scale_def)
  show "placement_of (layoutGrid [shape 0 0 10 10, shape 0 0 20 5] (Fin 400) (Fin 400) ! 1) =
     \<lparr>scale = Fin 9, translateX = Fin (1 * 200 + 200 / 2 - 10 * 9),
      translateY = Fin (0 * 400 + 400 / 2 - (5 / 2) * 9)\<rparr>"
    by (simp add: layoutGrid_nth grid_cols_2 grid_rows_2 layout_body_fin [OF a1] spec_scale_def)
qed

text \<open>The amended C4 at the second of the two shapes of the example.\<close>

theorem layoutGrid_placement_witness:
  "(1::nat) < length [shape 0 0 10 10, shape 0 0 20 5] \<and>
   computeAABB (rt_slots ([shape 0 0 10 10, shape 0 0 20 5] ! 1)) =
     \<lparr>a_minX = Fin 0, a_minY = Fin 0, a_maxX = Fin 20, a_maxY = Fin 5,
      a_width = Fin 20, a_height = Fin 5\<rparr> \<and>
   scale (placement_of (layoutGrid [shape 0 0 10 10, shape 0 0 20 5] (Fin 400) (Fin 400) ! 1)) =
     Fin (spec_scale (400 / 2) (400 / 1) (max 20 1) (max 5 1) (9 / 10)) \<and>
   spec_scale (400 / 2) (400 / 1) (max 20 1) (max 5 1) (9 / 10) = 9"
proof -
  have a: "computeAABB (rt_slots ([shape 0 0 10 10, shape 0 0 20 5] ! 1)) =
     \<lparr>a_minX = Fin 0, a_minY = Fin 0, a_maxX = Fin 20, a_maxY = Fin 5,
      a_width = Fin 20, a_height = Fin 5\<rparr>"
    using computeAABB_mesh [of 0 20 0 5] by (simp add: shape_def)
  have s: "spec_scale (400 / 2) (400 / 1) (max 20 1) (max 5 1) (9 / 10) = 9"
    by (simp add: spec_scale_def)
  from layoutGrid_placement [of 1 "[shape 0 0 10 10, shape 0 0 20 5]" 0 0 20 5 20 5 400 400] a
  have "scale (placement_of (layoutGrid [shape 0 0 10 10, shape 0 0 20 5] (Fin 400) (Fin 400) ! 1)) =
     Fin (spec_scale (400 / 2) (400 / 1) (max 20 1) (max 5 1) (9 / 10))"
    by (simp add: Let_def ceiling_sqrt_2)
  with a s show ?thesis by simp
qed

section \<open>The claims about the fallback and the watchdog\<close>



text \<open>
  C8, as stated, fails: \<open>handleWebglError\<close> returns nothing.  On the call that makes
  the transition the returned value is \<open>undefined\<close>, not the boolean \<open>true\<close>.
\<close>

theorem handleWebglError_returns_nothing_counterexample:
  "state_of renderer0 = Primary \<and>
   state_of (fst (handleWebglError renderer0)) = Fallback \<and>
   fst (snd (handleWebglError renderer0)) \<noteq> Boolean True"
  by (simp add: renderer0_def mount_def handleWebglError_def state_of_def)

text \<open>
  C8, amended.  \<open>handleWebglError\<close> returns no value.  Whether a transition occurred
  shows in the state only: with automatic fallback enabled and the state \<open>Primary\<close> the
  call moves the state to \<open>Fallback\<close> and requests the switch exactly once, after
  which a WebGL renderer renders the player; otherwise it leaves the renderer as it is
  and requests nothing.
\<close>

theorem handleWebglError_signals_by_state:
  "fst (snd (handleWebglError r)) = Undefined \<and>
   (enableAutoFallback r \<and> state_of r = Primary \<longrightarrow>
      state_of (fst (handleWebglError r)) = Fallback \<and>
      switches (snd (snd (handleWebglError r))) = 1 \<and>
      (renderMode r = WebGL \<longrightarrow> effectiveMode (fst (handleWebglError r)) = Player)) \<and>
   (\<not> enableAutoFallback r \<or> state_of r = Fallback \<longrightarrow>
      fst (handleWebglError r) = r \<and> switches (snd (snd (handleWebglError r))) = 0)"
  by (auto simp: handleWebglError_def state_of_def switches_def effectiveMode_def split: if_splits)

text \<open>The amended C8 at a freshly mounted renderer, called twice.\<close>

theorem handleWebglError_signals_by_state_witness:
  "enableAutoFallback renderer0 \<and> state_of renderer0 = Primary \<and> renderMode renderer0 = WebGL \<and>
   fst (snd (handleWebglError renderer0)) = Undefined \<and>
   state_of (fst (handleWebglError renderer0)) = Fallback \<and>
   switches (snd (snd (handleWebglError renderer0))) = 1 \<and>
   effectiveMode (fst (handleWebglError renderer0)) = Player \<and>
   fst (handleWebglError (fst (handleWebglError renderer0))) = fst (handleWebglError renderer0) \<and>
   switches (snd (snd (handleWebglError (fst (handleWebglError renderer0))))) = 0"
proof -
  have a: "enableAutoFallback renderer0 \<and> state_of renderer0 = Primary"
    and m: "renderMode renderer0 = WebGL"
    by (simp_all add: renderer0_def mount_def state_of_def)
  from handleWebglError_signals_by_state [of renderer0] a m
  have b: "fst (snd (handleWebglError renderer0)) = Undefined"
    "state_of (fst (handleWebglError renderer0)) = Fallback"
    "switches (snd (snd (handleWebglError renderer0))) = 1"
    "effectiveMode (fst (handleWebglError renderer0)) = Player" by simp_all
  from handleWebglError_signals_by_state [of "fst (handleWebglError renderer0)"] b(2)
  have c: "fst (handleWebglError (fst (handleWebglError renderer0))) = fst (handleWebglError renderer0)"
    "switches (snd (snd (handleWebglError (fst (handleWebglError renderer0))))) = 0" by simp_all
  from a m b c show ?thesis by simp
qed

text \<open>
  C6.  The watchdog calls \<open>onError\<close> at a frame only when that frame ends a run of
  consecutive invisible frames that lasts longer than the 600 ms limit, measured from
  the frame at which the timer was started; a visible frame resets the timer to zero
  and never fires; an invisible frame that finds the timer at zero starts it at its own
  timestamp.  Consequently, when no run of invisible frames lasts longer than 600 ms,
  \<open>onError\<close> is never called, the renderer stays as it was and has done nothing.
\<close>

theorem watchdog_debounce:
  "(fires fr k \<longrightarrow>
      (\<exists>j<k. (\<forall>m. j \<le> m \<and> m \<le> k \<longrightarrow> snd (fr m)) \<and>
             watchdogStart_at fr k = fst (fr j) \<and>
             watchdogLimitMs < fst (fr k) - fst (fr j))) \<and>
   (\<not> snd (fr n) \<longrightarrow> watchdogStart_at fr (Suc n) = 0 \<and> \<not> fires fr n) \<and>
   (watchdogStart_at fr n = 0 \<and> snd (fr n) \<longrightarrow> watchdogStart_at fr (Suc n) = fst (fr n)) \<and>
   ((\<forall>j k. j \<le> k \<and> (\<forall>m. j \<le> m \<and> m \<le> k \<longrightarrow> snd (fr m)) \<longrightarrow>
            fst (fr k) - fst (fr j) \<le> watchdogLimitMs) \<longrightarrow>
      onError_calls fr n = 0 \<and>
      fst (system_at fr r n) = r \<and> snd (snd (system_at fr r n)) = [])"
proof (intro conjI impI)
  assume "fires fr k"
  from fires_run [OF this] show "\<exists>j<k. (\<forall>m. j \<le> m \<and> m \<le> k \<longrightarrow> snd (fr m)) \<and>
             watchdogStart_at fr k = fst (fr j) \<and> watchdogLimitMs < fst (fr k) - fst (fr j)"
    unfolding watchdogLimitMs_def by blast
next
  assume "\<not> snd (fr n)"
  then show "watchdogStart_at fr (Suc n) = 0"
    by (simp add: start_Suc del: watchdogStart_at.simps(2))
next
  assume "\<not> snd (fr n)"
  then show "\<not> fires fr n" by (simp add: fires_iff)
next
  assume "watchdogStart_at fr n = 0 \<and> snd (fr n)"
  then show "watchdogStart_at fr (Suc n) = fst (fr n)"
    by (simp add: start_Suc del: watchdogStart_at.simps(2))
next
  assume short: "\<forall>j k. j \<le> k \<and> (\<forall>m. j \<le> m \<and> m \<le> k \<longrightarrow> snd (fr m)) \<longrightarrow>
            fst (fr k) - fst (fr j) \<le> watchdogLimitMs"
  have quiet: "\<not> fires fr k" for k
  proof
    assume "fires fr k"
    from fires_run [OF this] obtain j where j: "j < k" "\<forall>m. j \<le> m \<and> m \<le> k \<longrightarrow> snd (fr m)"
      "600 < fst (fr k) - fst (fr j)" by blast
    from short j(1,2) have "fst (fr k) - fst (fr j) \<le> watchdogLimitMs" by (simp add: less_imp_le)
    with j(3) show False by (simp add: watchdogLimitMs_def)
  qed
  show "onError_calls fr n = 0" by (rule onError_calls_zero) (simp add: quiet)
  from quiet have q: "\<forall>k<n. \<not> fires fr k" by simp
  show "fst (system_at fr r n) = r" "snd (snd (system_at fr r n)) = []"
    by (simp_all add: system_quiet [OF q])
qed

text \<open>
  C6 at frames 100 ms apart: with every frame invisible the watchdog fires at the
  eighth frame, 700 ms after the timer was started; with visible and invisible frames
  alternating it never fires.
\<close>

theorem watchdog_debounce_witness:
  "fires frames_sustained 7 \<and>
   watchdogStart_at frames_sustained 7 = 100 \<and>
   watchdogLimitMs < fst (frames_sustained 7) - 100 \<and>
   \<not> snd (frames_alternating 1) \<and>
   watchdogStart_at frames_alternating 2 = 0 \<and>
   snd (frames_alternating 2) \<and>
   watchdogStart_at frames_alternating 3 = fst (frames_alternating 2) \<and>
   onError_calls frames_alternating 50 = 0 \<and>
   fst (system_at frames_alternating mounted0 50) = mounted0 \<and>
   snd (snd (system_at frames_alternating mounted0 50)) = []"
proof -
  have short: "\<forall>j k. j \<le> k \<and> (\<forall>m. j \<le> m \<and> m \<le> k \<longrightarrow> snd (frames_alternating m)) \<longrightarrow>
      fst (frames_alternating k) - fst (frames_alternating j) \<le> watchdogLimitMs"
    using alternating_runs_short by blast
  have v: "\<not> snd (frames_alternating 1)" "snd (frames_alternating 2)"
    by (simp_all add: frames_alternating_def)
  from watchdog_debounce [of frames_alternating 0 1 mounted0] v(1)
  have a1: "watchdogStart_at frames_alternating (Suc 1) = 0" by blast
  from watchdog_debounce [of frames_alternating 0 50 mounted0] short
  have a: "onError_calls frames_alternating 50 = 0"
    "fst (system_at frames_alternating mounted0 50) = mounted0"
    "snd (snd (system_at frames_alternating mounted0 50)) = []" by blast+
  from a1 have a2: "watchdogStart_at frames_alternating 2 = 0" by (simp add: numeral_2_eq_2)
  from watchdog_debounce [of frames_alternating 0 2 mounted0] a2 v(2)
  have "watchdogStart_at frames_alternating (Suc 2) = fst (frames_alternating 2)" by blast
  then have b: "watchdogStart_at frames_alternating 3 = fst (frames_alternating 2)"
    by (simp add: numeral_3_eq_3 numeral_2_eq_2)
  have c: "watchdogLimitMs < fst (frames_sustained 7) - 100"
    by (simp add: frames_sustained_simp watchdogLimitMs_def)
  from sustained_fires_7 sustained_start_7 c v a2 a b show ?thesis by simp
qed

text \<open>
  C10, as stated, fails.  Take sixteen invisible frames 100 ms apart, in which a watchdog
  left alone fires twice.  With the renderer as the page mounts it, the first \<open>onError\<close>
  switches to the player, the canvas is unmounted and its loop cancelled: the handler is
  called once, not once per grace window, and no call was ever stopped by the
  \<open>forcePlayer\<close> test.  In the clamped variant a skeleton with nothing to show is never
  flagged invisible, and \<open>onError\<close> is not called at all.
\<close>

theorem watchdog_repeats_counterexample:
  "onError_calls frames_sustained 16 = 2 \<and>
   system_at frames_sustained mounted0 16 =
     (switched mounted0, 0, [ConsoleError, ConsoleLog, SetForcePlayer True]) \<and>
   \<not> canvas_mounted (switched mounted0) \<and>
   onError_calls (clamped_frames nan_skeleton) 16 = 0"
proof (intro conjI)
  show "onError_calls frames_sustained 16 = 2" by (rule sustained_calls_16)
  show "system_at frames_sustained mounted0 16 =
     (switched mounted0, 0, [ConsoleError, ConsoleLog, SetForcePlayer True])"
    unfolding mounted0_def
    by (rule system_after_first_fire [OF sustained_fires_7 sustained_quiet_before_7]) simp
  show "\<not> canvas_mounted (switched mounted0)"
    unfolding mounted0_def by (rule switched_unmounted)
  have "\<not> fires (clamped_frames nan_skeleton) k" for k
    using clamped_never_fires [of "\<lambda>k. 100 * real (Suc k)" "\<lambda>k. nan_skeleton" k]
    by (simp add: clamped_frames_def [abs_def])
  then show "onError_calls (clamped_frames nan_skeleton) 16 = 0"
    by (intro onError_calls_zero) simp
qed

text \<open>
  C10, amended.  The watchdog re-arms itself: a frame that fires leaves the timer at
  zero.  So while the canvas stays mounted and every frame is flagged invisible, with
  timestamps that are never zero, in order, growing without bound and at most \<open>d\<close> apart,
  the watchdog fires, and after each firing the next one comes more than 600 ms and at
  most \<open>600 + 2 d\<close> ms later.  The canvas does stay mounted when the renderer has
  automatic fallback disabled: every firing reaches the handler, which only logs.  With
  automatic fallback enabled the first firing makes the renderer switch to the player,
  which unmounts the canvas and ends its loop: the handler is called exactly once and
  requests the switch exactly once.  Whenever a canvas is mounted its handler sees
  \<open>forcePlayer\<close> unset, so the \<open>forcePlayer\<close> test is never what prevents a second
  switch; it makes a call that finds the flag set a no-op.  In the clamped variant
  \<open>getBounds\<close> keeps width and height at 50 or more, no frame is flagged invisible and
  the watchdog never fires.
\<close>

theorem watchdog_rearms_until_unmounted:
  "(fires fr n \<longrightarrow> watchdogStart_at fr (Suc n) = 0) \<and>
   ((\<forall>k. snd (fr k)) \<and> (\<forall>k. fst (fr k) \<noteq> 0) \<and>
    (\<forall>i j. i \<le> j \<longrightarrow> fst (fr i) \<le> fst (fr j)) \<and> (\<forall>T. \<exists>k. T < fst (fr k)) \<and>
    (\<forall>k. fst (fr (Suc k)) - fst (fr k) \<le> d) \<longrightarrow>
      (\<exists>k. fires fr k) \<and>
      (fires fr n \<longrightarrow>
         (\<exists>k>n. fires fr k \<and> (\<forall>l. n < l \<and> l < k \<longrightarrow> \<not> fires fr l) \<and>
            watchdogLimitMs < fst (fr k) - fst (fr n) \<and>
            fst (fr k) - fst (fr n) \<le> watchdogLimitMs + 2 * d))) \<and>
   system_at fr (mount_renderer WebGL False sp ap) n =
     (mount_renderer WebGL False sp ap, watchdogStart_at fr n,
      replicate (onError_calls fr n) ConsoleError) \<and>
   (fires fr k \<and> (\<forall>l<k. \<not> fires fr l) \<and> k < n \<longrightarrow>
      system_at fr (mount_renderer WebGL True sp ap) n =
        (switched (mount_renderer WebGL True sp ap), 0,
         [ConsoleError, ConsoleLog, SetForcePlayer True]) \<and>
      \<not> canvas_mounted (switched (mount_renderer WebGL True sp ap))) \<and>
   (canvas_mounted (fst (system_at fr (mount_renderer mode fb sp ap) n)) \<longrightarrow>
      \<not> forcePlayer (shown (fst (system_at fr (mount_renderer mode fb sp ap) n)))) \<and>
   (forcePlayer r \<longrightarrow> handleWebglError r = (r, Undefined, [ConsoleError])) \<and>
   \<not> fires (\<lambda>k. (ts k, invisible (Fin (1 / 1000000)) (b_w (getBounds (sk k))) (b_h (getBounds (sk k))))) n"
proof (intro conjI impI)
  assume "fires fr n"
  then show "watchdogStart_at fr (Suc n) = 0" by (rule fires_rearm)
next
  assume a: "(\<forall>k. snd (fr k)) \<and> (\<forall>k. fst (fr k) \<noteq> 0) \<and>
    (\<forall>i j. i \<le> j \<longrightarrow> fst (fr i) \<le> fst (fr j)) \<and> (\<forall>T. \<exists>k. T < fst (fr k)) \<and>
    (\<forall>k. fst (fr (Suc k)) - fst (fr k) \<le> d)"
  then show "\<exists>k. fires fr k" by (intro first_firing) blast+
next
  assume a: "(\<forall>k. snd (fr k)) \<and> (\<forall>k. fst (fr k) \<noteq> 0) \<and>
    (\<forall>i j. i \<le> j \<longrightarrow> fst (fr i) \<le> fst (fr j)) \<and> (\<forall>T. \<exists>k. T < fst (fr k)) \<and>
    (\<forall>k. fst (fr (Suc k)) - fst (fr k) \<le> d)" and f: "fires fr n"
  from a have "\<forall>k. snd (fr k)" "\<forall>k. fst (fr k) \<noteq> 0"
    "\<forall>i j. i \<le> j \<longrightarrow> fst (fr i) \<le> fst (fr j)" "\<forall>T. \<exists>k. T < fst (fr k)"
    "\<forall>k. fst (fr (Suc k)) - fst (fr k) \<le> d" by blast+
  from next_firing [OF this f] show "\<exists>k>n. fires fr k \<and> (\<forall>l. n < l \<and> l < k \<longrightarrow> \<not> fires fr l) \<and>
            watchdogLimitMs < fst (fr k) - fst (fr n) \<and>
            fst (fr k) - fst (fr n) \<le> watchdogLimitMs + 2 * d"
    by (simp add: watchdogLimitMs_def)
next
  show "system_at fr (mount_renderer WebGL False sp ap) n =
     (mount_renderer WebGL False sp ap, watchdogStart_at fr n,
      replicate (onError_calls fr n) ConsoleError)"
    by (rule system_without_fallback)
next
  assume "fires fr k \<and> (\<forall>l<k. \<not> fires fr l) \<and> k < n"
  then show "system_at fr (mount_renderer WebGL True sp ap) n =
        (switched (mount_renderer WebGL True sp ap), 0,
         [ConsoleError, ConsoleLog, SetForcePlayer True])"
    by (intro system_after_first_fire) blast+
next
  show "\<not> canvas_mounted (switched (mount_renderer WebGL True sp ap))"
    by (rule switched_unmounted)
next
  assume "canvas_mounted (fst (system_at fr (mount_renderer mode fb sp ap) n))"
  then show "\<not> forcePlayer (shown (fst (system_at fr (mount_renderer mode fb sp ap) n)))"
    by (rule guard_never_decides)
next
  assume "forcePlayer r"
  then show "handleWebglError r = (r, Undefined, [ConsoleError])"
    by (simp add: handleWebglError_def)
next
  show "\<not> fires (\<lambda>k. (ts k, invisible (Fin (1 / 1000000)) (b_w (getBounds (sk k))) (b_h (getBounds (sk k))))) n"
    by (rule clamped_never_fires)
qed

text \<open>
  The amended C10 at invisible frames 100 ms apart: a firing at the eighth frame, the
  next one within 800 ms; two handler calls in sixteen frames without automatic
  fallback, one call and one switch with it.
\<close>

theorem watchdog_rearms_until_unmounted_witness:
  "fires frames_sustained 7 \<and> watchdogStart_at frames_sustained 8 = 0 \<and>
   (\<exists>k>7. fires frames_sustained k \<and>
      watchdogLimitMs < fst (frames_sustained k) - fst (frames_sustained 7) \<and>
      fst (frames_sustained k) - fst (frames_sustained 7) \<le> watchdogLimitMs + 2 * 100) \<and>
   system_at frames_sustained (mount_renderer WebGL False ''a.json'' ''a.atlas'') 16 =
     (mount_renderer WebGL False ''a.json'' ''a.atlas'', 0, [ConsoleError, ConsoleError]) \<and>
   system_at frames_sustained (mount_renderer WebGL True ''a.json'' ''a.atlas'') 16 =
     (switched (mount_renderer WebGL True ''a.json'' ''a.atlas''), 0,
      [ConsoleError, ConsoleLog, SetForcePlayer True])"
proof -
  have h1: "\<forall>k. snd (frames_sustained k)" by (simp add: frames_sustained_simp)
  have h2: "\<forall>k. fst (frames_sustained k) \<noteq> 0" by (simp add: frames_sustained_simp)
  have h3: "\<forall>i j. i \<le> j \<longrightarrow> fst (frames_sustained i) \<le> fst (frames_sustained j)"
    by (simp add: frames_sustained_simp)
  have h4: "\<forall>T. \<exists>k. T < fst (frames_sustained k)"
  proof
    fix T
    from sustained_unbounded [of 0 T] show "\<exists>k. T < fst (frames_sustained k)" by blast
  qed
  have h5: "\<forall>k. fst (frames_sustained (Suc k)) - fst (frames_sustained k) \<le> 100"
    using sustained_gap by blast
  note h = conjI [OF h1 conjI [OF h2 conjI [OF h3 conjI [OF h4 h5]]]]
  have q: "fires frames_sustained 7 \<and> (\<forall>l<7. \<not> fires frames_sustained l) \<and> (7::nat) < 16"
    using sustained_fires_7 sustained_quiet_before_7 by simp
  note t7 = watchdog_rearms_until_unmounted [of frames_sustained 7 100 "''a.json''" "''a.atlas''" 7
      WebGL True renderer0 "\<lambda>k. 0" "\<lambda>k. []"]
  note t16 = watchdog_rearms_until_unmounted [of frames_sustained 16 100 "''a.json''" "''a.atlas''" 7
      WebGL True renderer0 "\<lambda>k. 0" "\<lambda>k. []"]
  from t7 [THEN conjunct1] sustained_fires_7
  have a: "watchdogStart_at frames_sustained (Suc 7) = 0" by (rule mp)
  have s8: "Suc 7 = 8" by simp
  from a have a8: "watchdogStart_at frames_sustained 8 = 0" by (simp only: s8)
  from t7 [THEN conjunct2, THEN conjunct1] h
  have "(\<exists>k. fires frames_sustained k) \<and>
      (fires frames_sustained 7 \<longrightarrow>
         (\<exists>k>7. fires frames_sustained k \<and> (\<forall>l. 7 < l \<and> l < k \<longrightarrow> \<not> fires frames_sustained l) \<and>
            watchdogLimitMs < fst (frames_sustained k) - fst (frames_sustained 7) \<and>
            fst (frames_sustained k) - fst (frames_sustained 7) \<le> watchdogLimitMs + 2 * 100))"
    by (rule mp)
  from this [THEN conjunct2] sustained_fires_7
  have "\<exists>k>7. fires frames_sustained k \<and> (\<forall>l. 7 < l \<and> l < k \<longrightarrow> \<not> fires frames_sustained l) \<and>
            watchdogLimitMs < fst (frames_sustained k) - fst (frames_sustained 7) \<and>
            fst (frames_sustained k) - fst (frames_sustained 7) \<le> watchdogLimitMs + 2 * 100"
    by (rule mp)
  then have b: "\<exists>k>7. fires frames_sustained k \<and>
      watchdogLimitMs < fst (frames_sustained k) - fst (frames_sustained 7) \<and>
      fst (frames_sustained k) - fst (frames_sustained 7) \<le> watchdogLimitMs + 2 * 100" by blast
  have w16: "watchdogStart_at frames_sustained (Suc 15) = 0"
    using sustained_fires_15 by (rule fires_rearm)
  have s16: "Suc 15 = 16" by simp
  from t16 [THEN conjunct2, THEN conjunct2, THEN conjunct1]
  have c: "system_at frames_sustained (mount_renderer WebGL False ''a.json'' ''a.atlas'') 16 =
     (mount_renderer WebGL False ''a.json'' ''a.atlas'', 0, [ConsoleError, ConsoleError])"
    by (simp only: w16 [unfolded s16] sustained_calls_16) (simp add: numeral_2_eq_2)
  from t16 [THEN conjunct2, THEN conjunct2, THEN conjunct2, THEN conjunct1] q
  have "system_at frames_sustained (mount_renderer WebGL True ''a.json'' ''a.atlas'') 16 =
        (switched (mount_renderer WebGL True ''a.json'' ''a.atlas''), 0,
         [ConsoleError, ConsoleLog, SetForcePlayer True]) \<and>
      \<not> canvas_mounted (switched (mount_renderer WebGL True ''a.json'' ''a.atlas''))"
    by (rule mp)
  then have d: "system_at frames_sustained (mount_renderer WebGL True ''a.json'' ''a.atlas'') 16 =
     (switched (mount_renderer WebGL True ''a.json'' ''a.atlas''), 0,
      [ConsoleError, ConsoleLog, SetForcePlayer True])" by (rule conjunct1)
  show ?thesis
    by (intro conjI sustained_fires_7 a8 b c d)
qed

end
